theory Spec2Isabelle
  imports Complex_Main "HOL-Library.Char_ord" "HOL-Library.List_Lexorder"
    "HOL-Library.Product_Lexorder"
begin

section \<open>Values, errors and the analysis state\<close>

text \<open>
  The development embeds the consensus, support, coverage, normalisation and annotation
  methods of class \<open>ATACSeqAnalysis\<close> (\<open>toolkit/atacseq.py\<close>).  The module is Python 2
  code (\<open>range(1, 23) + ['X', 'Y', 'M']\<close>, a \<open>map\<close> result read three times) written
  against pandas before 0.20 (\<open>.ix\<close>, \<open>DataFrame.sort\<close>), and that is the semantics
  followed here.  The decorator \<open>pickle_me\<close> comes from a module that is not part of the
  sources; the methods are modelled as their bodies are written.

  Every raise is a value of \<open>error\<close>.  A method mutates \<open>self\<close>, the file system and the
  standard output before it raises, so a method returns the state it leaves behind together
  with either the error or its return value.
\<close>

datatype error =
  ValueError | UnboundLocalError | AttributeError | KeyError | AssertionError
  | ZeroDivisionError | IndexError | BEDToolsError

text \<open>A cell of a data frame: a string, an integer, a float or a missing value.\<close>

datatype cell = S string | I int | F real | NaN

text \<open>
  A data frame, row by row: the column labels in order (labels may repeat), the row index
  and the rows; every row has one cell per column.
\<close>

record frame =
  columns :: "string list"
  index :: "cell list"
  rows :: "cell list list"

record sample =
  name :: string
  genome :: string
  peaks :: string
  filtered :: string

text \<open>A BED interval \<open>(chrom, start, end)\<close>, half open; \<open>stop\<close> is pybedtools' name for the end.\<close>

record interval =
  chrom :: string
  start :: nat
  stop :: nat

type_synonym bed = "interval list"

text \<open>What \<open>print\<close> wrote: one constructor per message of the module.\<close>

datatype log =
  PrintName string
  | PeaksNotFound sample
  | MissingBam "sample list"

text \<open>
  The analysis object and the world around it.  An attribute that has not been set yet is
  \<open>None\<close> (reading it raises \<open>AttributeError\<close>).  \<open>bed_files\<close> and \<open>csv_files\<close> are the
  interval and table files on disk, \<open>os_path_exists\<close> answers for the alignment files,
  \<open>chromsizes\<close> is pybedtools' genome registry and \<open>stdout\<close> collects the printed lines,
  latest first.
\<close>

record state =
  self_name :: string
  data_dir :: string
  results_dir :: string
  samples :: "sample list"
  sites :: "bed option"
  support :: "frame option"
  coverage :: "frame option"
  coverage_qnorm :: "frame option"
  nuc :: "frame option"
  coverage_gc_corrected :: "frame option"
  gene_annotation :: "frame option"
  region_annotation :: "frame option"
  chrom_state_annotation :: "frame option"
  coverage_annotated :: "frame option"
  bed_files :: "string \<Rightarrow> bed option"
  csv_files :: "string \<Rightarrow> frame option"
  os_path_exists :: "string \<Rightarrow> bool"
  chromsizes :: "string \<Rightarrow> string \<Rightarrow> nat"
  stdout :: "log list"

definition py_print :: "state \<Rightarrow> log \<Rightarrow> state" where
  "py_print st m = st\<lparr>stdout := m # stdout st\<rparr>"

text \<open>\<open>os.path.join\<close> of two components on a POSIX system.\<close>

definition os_path_join :: "string \<Rightarrow> string \<Rightarrow> string" where
  "os_path_join a b =
     (if b \<noteq> [] \<and> hd b = CHR ''/'' then b
      else if a = [] \<or> last a = CHR ''/'' then a @ b
      else a @ ''/'' @ b)"

section \<open>The interval backend\<close>

text \<open>
  pybedtools is an external collaborator.  Its operations are modelled with the standard
  BEDTools semantics the module relies on (spec, section 6): \<open>BedTool(path)\<close> raises
  \<open>ValueError\<close> when the file does not exist; \<open>merge\<close> scans the features in file order
  and joins a feature to the running one when it is on the same contig and starts at or
  before the running end (overlapping or book-ended); \<open>cat\<close> concatenates, sorts by contig
  and start and merges; \<open>intersect(v=True)\<close> keeps the features of the first set that
  overlap no feature of the second; \<open>intersect(wa=True, c=True)\<close> counts, for each feature
  of the first set, the overlapping features of the second; \<open>slop\<close> widens each feature by
  a flank, clipped to the contig.
\<close>

definition BedTool :: "state \<Rightarrow> string \<Rightarrow> error + bed" where
  "BedTool st path = (case bed_files st path of None \<Rightarrow> Inl ValueError | Some b \<Rightarrow> Inr b)"

definition saveas :: "state \<Rightarrow> string \<Rightarrow> bed \<Rightarrow> state" where
  "saveas st path b = st\<lparr>bed_files := (bed_files st)(path \<mapsto> b)\<rparr>"

definition overlaps :: "interval \<Rightarrow> interval \<Rightarrow> bool" where
  "overlaps x y \<longleftrightarrow> chrom x = chrom y \<and> max (start x) (start y) < min (stop x) (stop y)"

fun merge_run :: "interval \<Rightarrow> bed \<Rightarrow> bed" where
  "merge_run cur [] = [cur]"
| "merge_run cur (x # xs) =
     (if chrom x = chrom cur \<and> start x \<le> stop cur
      then merge_run (cur\<lparr>stop := max (stop cur) (stop x)\<rparr>) xs
      else cur # merge_run x xs)"

definition merge :: "bed \<Rightarrow> bed" where
  "merge b = (case b of [] \<Rightarrow> [] | x # xs \<Rightarrow> merge_run x xs)"

definition sort_bed :: "bed \<Rightarrow> bed" where
  "sort_bed b = sort_key (\<lambda>x. (chrom x, start x)) b"

definition cat :: "bed \<Rightarrow> bed \<Rightarrow> bed" where
  "cat a b = merge (sort_bed (a @ b))"

definition intersect_v :: "bed \<Rightarrow> bed \<Rightarrow> bed" where
  "intersect_v a b = filter (\<lambda>x. \<not> list_ex (overlaps x) b) a"

definition slop :: "(string \<Rightarrow> nat) \<Rightarrow> nat \<Rightarrow> bed \<Rightarrow> bed" where
  "slop sizes b xs =
     map (\<lambda>x. x\<lparr>start := start x - b, stop := min (sizes (chrom x)) (stop x + b)\<rparr>) xs"

text \<open>
  \<open>re.sub("_peaks.narrowPeak", "_summits.bed", path)\<close>: the pattern is six literal
  characters, one character that is not a newline, and ten literal characters; every
  non-overlapping match, leftmost first, is replaced.
\<close>

definition match_peaks :: "string \<Rightarrow> bool" where
  "match_peaks s \<longleftrightarrow>
     17 \<le> length s \<and> take 6 s = ''_peaks'' \<and> s ! 6 \<noteq> CHR 0x0A
     \<and> take 10 (drop 7 s) = ''narrowPeak''"

fun re_sub_peaks :: "string \<Rightarrow> string" where
  "re_sub_peaks [] = []"
| "re_sub_peaks (c # cs) =
     (if match_peaks (c # cs) then ''_summits.bed'' @ re_sub_peaks (drop 16 cs)
      else c # re_sub_peaks cs)"

section \<open>Consensus Builder\<close>

definition load_peaks :: "state \<Rightarrow> string \<Rightarrow> nat \<Rightarrow> sample \<Rightarrow> error + bed" where
  "load_peaks st region_type extension smp =
     (if region_type = ''summits''
      then (case BedTool st (re_sub_peaks (peaks smp)) of
              Inl e \<Rightarrow> Inl e
            | Inr b \<Rightarrow> Inr (slop (chromsizes st (genome smp)) extension b))
      else BedTool st (peaks smp))"

text \<open>
  The loop of \<open>get_consensus_sites\<close> over \<open>enumerate(samples)\<close>.  The local variable
  \<open>sites\<close> is unbound (\<open>None\<close>) until the iteration with \<open>i == 0\<close> assigns it; an
  iteration whose peaks file is absent prints and continues.
\<close>

fun consensus_loop ::
  "string \<Rightarrow> nat \<Rightarrow> state \<Rightarrow> (nat \<times> sample) list \<Rightarrow> bed option \<Rightarrow> state \<times> (error + bed option)"
where
  "consensus_loop rt ext st [] acc = (st, Inr acc)"
| "consensus_loop rt ext st ((i, smp) # rest) acc =
     (let st1 = py_print st (PrintName (name smp)) in
      case load_peaks st1 rt ext smp of
        Inl e \<Rightarrow>
          (if e = ValueError
           then consensus_loop rt ext (py_print st1 (PeaksNotFound smp)) rest acc
           else (st1, Inl e))
      | Inr pk \<Rightarrow>
          (if i = 0 then consensus_loop rt ext st1 rest (Some (merge pk))
           else (case acc of
                   None \<Rightarrow> (st1, Inl UnboundLocalError)
                 | Some s \<Rightarrow> consensus_loop rt ext st1 rest (Some (cat s (merge pk))))))"

definition blacklist_file :: "state \<Rightarrow> string" where
  "blacklist_file st =
     os_path_join (os_path_join (data_dir st) ''external'')
       ''wgEncodeDacMapabilityConsensusExcludable.bed''"

definition peak_set_file :: "state \<Rightarrow> string" where
  "peak_set_file st = os_path_join (results_dir st) (self_name st @ ''_peak_set.bed'')"

definition get_consensus_sites ::
  "state \<Rightarrow> sample list \<Rightarrow> string \<Rightarrow> nat \<Rightarrow> state \<times> (error + unit)"
where
  "get_consensus_sites st smps region_type extension =
     (case consensus_loop region_type extension st (enumerate 0 smps) None of
        (st1, Inl e) \<Rightarrow> (st1, Inl e)
      | (st1, Inr None) \<Rightarrow> (st1, Inl UnboundLocalError)
      | (st1, Inr (Some acc)) \<Rightarrow>
          (case BedTool st1 (blacklist_file st1) of
             Inl e \<Rightarrow> (st1, Inl e)
           | Inr blacklist \<Rightarrow>
               (let st2 = saveas st1 (peak_set_file st1)
                            (filter (\<lambda>x. chrom x \<noteq> ''chrM'')
                               (intersect_v (merge acc) blacklist))
                in case BedTool st2 (peak_set_file st2) of
                     Inl e \<Rightarrow> (st2, Inl e)
                   | Inr b \<Rightarrow> (st2\<lparr>sites := Some b\<rparr>, Inr ()))))"

section \<open>Data frames\<close>

text \<open>
  \<open>df[[l1, l2, ...]]\<close> with string labels: for each requested label every column that
  carries it, in the order requested; a label that no column carries raises \<open>KeyError\<close>.
\<close>

definition pick :: "string list \<Rightarrow> cell list \<Rightarrow> string \<Rightarrow> cell list" where
  "pick cols row lab = map snd (filter (\<lambda>p. fst p = lab) (zip cols row))"

definition select_labels :: "frame \<Rightarrow> string list \<Rightarrow> error + frame" where
  "select_labels f labs =
     (if list_all (\<lambda>l. l \<in> set (columns f)) labs
      then Inr \<lparr>columns = concat (map (\<lambda>l. filter (\<lambda>c. c = l) (columns f)) labs),
                index = index f,
                rows = map (\<lambda>row. concat (map (pick (columns f) row) labs)) (rows f)\<rparr>
      else Inl KeyError)"

text \<open>
  \<open>df[lab] = vals\<close>: an existing label has its column (every column carrying it) replaced,
  a new label is appended as the last column.  Every use below computes \<open>vals\<close> row by row
  from the frame itself, so the two lengths agree.
\<close>

definition set_column :: "frame \<Rightarrow> string \<Rightarrow> cell list \<Rightarrow> frame" where
  "set_column f lab vals =
     (if lab \<in> set (columns f)
      then f\<lparr>rows := map2 (\<lambda>row v. map2 (\<lambda>c x. if c = lab then v else x) (columns f) row)
                        (rows f) vals\<rparr>
      else f\<lparr>columns := columns f @ [lab], rows := map2 (\<lambda>row v. row @ [v]) (rows f) vals\<rparr>)"

definition to_csv :: "state \<Rightarrow> string \<Rightarrow> frame \<Rightarrow> state" where
  "to_csv st path f = st\<lparr>csv_files := (csv_files st)(path \<mapsto> f)\<rparr>"

text \<open>
  \<open>DataFrame.sum(axis=1)\<close> of one row: missing values are skipped and cells that are not
  numbers do not take part.
\<close>

fun cell_num :: "cell \<Rightarrow> real" where
  "cell_num (I i) = real_of_int i"
| "cell_num (F v) = v"
| "cell_num (S s) = 0"
| "cell_num NaN = 0"

definition row_sum :: "cell list \<Rightarrow> real" where
  "row_sum row = sum_list (map cell_num row)"

section \<open>Support Scorer\<close>

text \<open>
  The running support table while it is still a BedTool: the consensus intervals, each with
  the counts appended so far by \<open>intersect(peaks, wa=True, c=True)\<close>, one per sample.
\<close>

type_synonym counted = "(interval \<times> int list) list"

definition intersect_count :: "counted \<Rightarrow> bed \<Rightarrow> counted" where
  "intersect_count a b =
     map (\<lambda>(x, cs). (x, cs @ [int (length (filter (overlaps x) b))])) a"

definition peaks_path :: "string \<Rightarrow> sample \<Rightarrow> string" where
  "peaks_path region_type smp =
     (if region_type = ''summits'' then re_sub_peaks (peaks smp) else peaks smp)"

text \<open>
  The loop of \<open>calculate_peak_support\<close>.  The peaks are handed to BEDTools as a path, so a
  missing file is an error of the tool and is not caught.
\<close>

fun support_loop ::
  "string \<Rightarrow> state \<Rightarrow> (nat \<times> sample) list \<Rightarrow> counted option \<Rightarrow> state \<times> (error + counted option)"
where
  "support_loop rt st [] acc = (st, Inr acc)"
| "support_loop rt st ((i, smp) # rest) acc =
     (let st1 = py_print st (PrintName (name smp)) in
      case (if i = 0
            then (case sites st1 of
                    None \<Rightarrow> Inl AttributeError
                  | Some s \<Rightarrow> Inr (map (\<lambda>x. (x, [])) s))
            else (case acc of None \<Rightarrow> Inl UnboundLocalError | Some a \<Rightarrow> Inr a)) of
        Inl e \<Rightarrow> (st1, Inl e)
      | Inr a \<Rightarrow>
          (case bed_files st1 (peaks_path rt smp) of
             None \<Rightarrow> (st1, Inl BEDToolsError)
           | Some b \<Rightarrow> support_loop rt st1 rest (Some (intersect_count a b))))"

definition to_dataframe :: "counted \<Rightarrow> sample list \<Rightarrow> frame" where
  "to_dataframe a smps =
     \<lparr>columns = [''chrom'', ''start'', ''end''] @ map name smps,
      index = map (\<lambda>k. I (int k)) [0..<length a],
      rows = map (\<lambda>(x, cs). [S (chrom x), I (int (start x)), I (int (stop x))] @ map I cs) a\<rparr>"

text \<open>
  The lambda of line 110, \<open>i if i <= 1 else 1\<close>, under Python 2 comparison: a string is
  never \<open><= 1\<close> (numbers order before strings), nor is a missing value.
\<close>

fun clamp :: "cell \<Rightarrow> real" where
  "clamp (I i) = (if i \<le> 1 then real_of_int i else 1)"
| "clamp (F v) = (if v \<le> 1 then v else 1)"
| "clamp (S s) = 1"
| "clamp NaN = 1"

text \<open>
  \<open>support[range(len(samples))]\<close>: a list of integers indexing string column labels.  In
  the pandas this module is written for that is positional, so it takes the first
  \<open>len(samples)\<close> columns of the table, which begins with \<open>chrom\<close>, \<open>start\<close>, \<open>end\<close>.
  (Later pandas raises \<open>KeyError\<close> here instead.)
\<close>

definition support_value :: "nat \<Rightarrow> nat \<Rightarrow> cell list \<Rightarrow> cell" where
  "support_value n m row = F (sum_list (map clamp (take n row)) / real m)"

definition binary_support_file :: "state \<Rightarrow> string" where
  "binary_support_file st =
     os_path_join (results_dir st) (self_name st @ ''_peaks.binary_overlap_support.csv'')"

definition support_file :: "state \<Rightarrow> string" where
  "support_file st = os_path_join (results_dir st) (self_name st @ ''_peaks.support.csv'')"

definition calculate_peak_support ::
  "state \<Rightarrow> sample list \<Rightarrow> string \<Rightarrow> state \<times> (error + unit)"
where
  "calculate_peak_support st smps region_type =
     (case support_loop region_type st (enumerate 0 smps) None of
        (st1, Inl e) \<Rightarrow> (st1, Inl e)
      | (st1, Inr None) \<Rightarrow> (st1, Inl UnboundLocalError)
      | (st1, Inr (Some a)) \<Rightarrow>
          (let f = to_dataframe a smps;
               st2 = to_csv st1 (binary_support_file st1) f
           in if samples st2 = [] \<and> rows f \<noteq> [] then (st2, Inl ZeroDivisionError)
              else
                (let f' = set_column f ''support''
                            (map (support_value (length smps) (length (samples st2))) (rows f));
                     st3 = to_csv st2 (support_file st2) f'
                 in (st3\<lparr>support := Some f'\<rparr>, Inr ()))))"

definition get_supported_peaks :: "state \<Rightarrow> sample list \<Rightarrow> error + bool list" where
  "get_supported_peaks st smps =
     (case support st of
        None \<Rightarrow> Inl AttributeError
      | Some f \<Rightarrow>
          (case select_labels f (map name smps) of
             Inl e \<Rightarrow> Inl e
           | Inr g \<Rightarrow> Inr (map (\<lambda>row. row_sum row \<noteq> 0) (rows g))))"

section \<open>Strings: formatting and parsing region keys\<close>

text \<open>\<open>str(n)\<close> of a non-negative integer: its decimal digits.\<close>

definition digit_char :: "nat \<Rightarrow> char" where
  "digit_char d = ''0123456789'' ! d"

fun str_nat :: "nat \<Rightarrow> string" where
  "str_nat n = (if n < 10 then [digit_char n] else str_nat (n div 10) @ [digit_char (n mod 10)])"

declare str_nat.simps [simp del]

text \<open>\<open>s.split(sep)\<close> for a one-character separator: never empty, one more piece than separators.\<close>

fun split_on :: "char \<Rightarrow> string \<Rightarrow> string list" where
  "split_on c [] = [[]]"
| "split_on c (x # xs) =
     (if x = c then [] # split_on c xs
      else (case split_on c xs of [] \<Rightarrow> [[x]] | y # ys \<Rightarrow> (x # y) # ys))"

definition nth_err :: "'a list \<Rightarrow> nat \<Rightarrow> error + 'a" where
  "nth_err xs i = (if i < length xs then Inr (xs ! i) else Inl IndexError)"

text \<open>
  \<open>int(s)\<close> of a string: surrounding whitespace is stripped, one sign may lead, and at least
  one decimal digit must follow and nothing else; otherwise \<open>ValueError\<close>.
\<close>

definition is_space :: "char \<Rightarrow> bool" where
  "is_space c \<longleftrightarrow> c \<in> set [CHR '' '', CHR 0x09, CHR 0x0A, CHR 0x0B, CHR 0x0C, CHR 0x0D]"

definition strip :: "string \<Rightarrow> string" where
  "strip s = rev (dropWhile is_space (rev (dropWhile is_space s)))"

definition digit_val :: "char \<Rightarrow> nat option" where
  "digit_val c = map_of (zip ''0123456789'' [0..<10]) c"

fun digits_val :: "nat \<Rightarrow> string \<Rightarrow> nat option" where
  "digits_val acc [] = Some acc"
| "digits_val acc (c # cs) =
     (case digit_val c of None \<Rightarrow> None | Some d \<Rightarrow> digits_val (10 * acc + d) cs)"

definition py_int :: "string \<Rightarrow> error + int" where
  "py_int s =
     (case strip s of
        [] \<Rightarrow> Inl ValueError
      | c # cs \<Rightarrow>
          (let (sgn, ds) = (if c = CHR ''-'' then (-1, cs)
                            else if c = CHR ''+'' then (1, cs) else (1, c # cs))
           in if ds = [] then Inl ValueError
              else (case digits_val 0 ds of
                      None \<Rightarrow> Inl ValueError
                    | Some n \<Rightarrow> Inr (sgn * int n))))"

text \<open>Mapping a function that may raise over a list: the first error ends the traversal.\<close>

fun map_err :: "('a \<Rightarrow> error + 'b) \<Rightarrow> 'a list \<Rightarrow> error + 'b list" where
  "map_err f [] = Inr []"
| "map_err f (x # xs) =
     (case f x of
        Inl e \<Rightarrow> Inl e
      | Inr y \<Rightarrow> (case map_err f xs of Inl e \<Rightarrow> Inl e | Inr ys \<Rightarrow> Inr (y # ys)))"

definition fmt_region :: "string \<Rightarrow> nat \<Rightarrow> nat \<Rightarrow> string" where
  "fmt_region c s e = c @ '':'' @ str_nat s @ ''-'' @ str_nat e"

definition fmt_interval :: "interval \<Rightarrow> string" where
  "fmt_interval x = fmt_region (chrom x) (start x) (stop x)"

text \<open>
  The three components read back out of a key:
  \<open>(x.split(":")[0], x.split(":")[1].split("-")[0], x.split(":")[1].split("-")[1])\<close>.
\<close>

definition parse_key :: "string \<Rightarrow> error + (string \<times> string \<times> string)" where
  "parse_key x =
     (case nth_err (split_on CHR '':'' x) 0 of
        Inl e \<Rightarrow> Inl e
      | Inr c \<Rightarrow>
          (case nth_err (split_on CHR '':'' x) 1 of
             Inl e \<Rightarrow> Inl e
           | Inr r \<Rightarrow>
               (case nth_err (split_on CHR ''-'' r) 0 of
                  Inl e \<Rightarrow> Inl e
                | Inr s \<Rightarrow>
                    (case nth_err (split_on CHR ''-'' r) 1 of
                       Inl e \<Rightarrow> Inl e
                     | Inr e \<Rightarrow> Inr (c, s, e)))))"

section \<open>External numeric and alignment backends\<close>

text \<open>
  What the module calls but does not contain: read counting over an alignment file, the two
  R routines, the nucleotide content of a reference sequence, and the floating-point row
  statistics of pandas and numpy.  They are parameters of the model.
\<close>

record backend =
  count_reads :: "string \<Rightarrow> string \<Rightarrow> nat"
  normalize_quantiles_r :: "cell list list \<Rightarrow> cell list list"
  cqn :: "cell list list \<Rightarrow> cell list \<Rightarrow> cell list \<Rightarrow> cell list list"
  nucleotide_content :: "bed \<Rightarrow> (cell \<times> cell) list"
  row_mean :: "cell list \<Rightarrow> cell"
  row_var :: "cell list \<Rightarrow> cell"
  row_max :: "cell list \<Rightarrow> cell"
  row_min :: "cell list \<Rightarrow> cell"
  np_sqrt :: "cell \<Rightarrow> cell"
  np_divide :: "cell \<Rightarrow> cell \<Rightarrow> cell"
  np_subtract :: "cell \<Rightarrow> cell \<Rightarrow> cell"
  np_square :: "cell \<Rightarrow> cell"

section \<open>Coverage Quantifier\<close>

text \<open>
  Modelled from the spec: \<open>count_reads_in_intervals\<close> of \<open>toolkit.general\<close>, which is not
  part of the sources.  For one alignment file it counts the alignments overlapping every
  region and returns the counts keyed by region string.
\<close>

definition count_reads_in_intervals :: "backend \<Rightarrow> string \<Rightarrow> string list \<Rightarrow> (string \<times> int) list" where
  "count_reads_in_intervals bk bam sites_str =
     map (\<lambda>r. (r, int (count_reads bk bam r))) (remdups sites_str)"

text \<open>The \<open>sites\<close> argument of \<open>measure_coverage\<close> when it is not \<open>None\<close>, by Python type.\<close>

datatype sites_arg =
  SitesBed bed
  | SitesFrame "(string \<times> nat \<times> nat) list"
  | SitesPath string
  | SitesOther

text \<open>
  The chain of type tests that builds \<open>sites_str\<close>.  The BedTool branch iterates
  \<open>self.sites\<close>, not the argument; a value of any other type leaves \<open>sites_str\<close> unbound.
\<close>

definition sites_str :: "state \<Rightarrow> sites_arg \<Rightarrow> error + string list" where
  "sites_str st a =
     (case a of
        SitesBed b \<Rightarrow>
          (case sites st of None \<Rightarrow> Inl AttributeError | Some s \<Rightarrow> Inr (map fmt_interval s))
      | SitesFrame t \<Rightarrow> Inr (map (\<lambda>(c, s, e). fmt_region c s e) t)
      | SitesPath p \<Rightarrow>
          (case BedTool st p of Inl e \<Rightarrow> Inl e | Inr b \<Rightarrow> Inr (map fmt_interval b))
      | SitesOther \<Rightarrow> Inl UnboundLocalError)"

text \<open>
  \<open>pd.DataFrame(map(pd.Series, counts), index=names).T\<close> and the three coordinate columns.
  The rows are the keys of the per-sample results, so there are none when no sample is
  left; the columns are the sample names.
\<close>

definition build_coverage :: "backend \<Rightarrow> sample list \<Rightarrow> string list \<Rightarrow> error + frame" where
  "build_coverage bk smps keys =
     (let dicts = map (\<lambda>s. count_reads_in_intervals bk (filtered s) keys) smps;
          idx = remdups (concat (map (map fst) dicts));
          cov = \<lparr>columns = map name smps,
                 index = map S idx,
                 rows = map (\<lambda>k. map (\<lambda>d. case map_of d k of None \<Rightarrow> NaN | Some n \<Rightarrow> I n) dicts) idx\<rparr>
      in case map_err parse_key idx of
           Inl e \<Rightarrow> Inl e
         | Inr ints \<Rightarrow>
             (let cov1 = set_column cov ''chrom'' (map (\<lambda>x. S (fst x)) ints) in
              case map_err (\<lambda>x. py_int (fst (snd x))) ints of
                Inl e \<Rightarrow> Inl e
              | Inr starts \<Rightarrow>
                  (let cov2 = set_column cov1 ''start'' (map I starts) in
                   case map_err (\<lambda>x. py_int (snd (snd x))) ints of
                     Inl e \<Rightarrow> Inl e
                   | Inr ends \<Rightarrow> Inr (set_column cov2 ''end'' (map I ends)))))"

definition raw_coverage_file :: "state \<Rightarrow> string" where
  "raw_coverage_file st =
     os_path_join (results_dir st) (self_name st @ ''_peaks.raw_coverage.csv'')"

text \<open>
  \<open>measure_coverage\<close>.  The local \<open>default\<close> is assigned (\<open>True\<close>) only when both \<open>sites\<close>
  and \<open>output_file\<close> are \<open>None\<close>; it is unbound otherwise, and \<open>if default:\<close> reads it.
  The value returned is the matrix, or \<open>None\<close> after writing to \<open>output_file\<close>.
\<close>

definition measure_coverage ::
  "backend \<Rightarrow> state \<Rightarrow> sample list \<Rightarrow> sites_arg option \<Rightarrow> string option
     \<Rightarrow> state \<times> (error + frame option)"
where
  "measure_coverage bk st smps0 sites_a output_file =
     (let missing = filter (\<lambda>s. \<not> os_path_exists st (filtered s)) smps0;
          st1 = (if length missing > 0 then py_print st (MissingBam missing) else st);
          smps = (if length missing > 0 then filter (\<lambda>s. s \<notin> set missing) smps0 else smps0)
      in case (case sites_a of
                 None \<Rightarrow> (case sites st1 of None \<Rightarrow> Inl AttributeError | Some b \<Rightarrow> Inr (SitesBed b))
               | Some a \<Rightarrow> Inr a) of
           Inl e \<Rightarrow> (st1, Inl e)
         | Inr sv \<Rightarrow>
             (let default = (if sites_a = None \<and> output_file = None then Some True else None) in
              case sites_str st1 sv of
                Inl e \<Rightarrow> (st1, Inl e)
              | Inr keys \<Rightarrow>
                  (case build_coverage bk smps keys of
                     Inl e \<Rightarrow> (st1, Inl e)
                   | Inr cov \<Rightarrow>
                       (case default of
                          None \<Rightarrow> (st1, Inl UnboundLocalError)
                        | Some d \<Rightarrow>
                            (let st2 = (if d then to_csv (st1\<lparr>coverage := Some cov\<rparr>)
                                                   (raw_coverage_file st1) cov
                                        else st1)
                             in case output_file of
                                  Some p \<Rightarrow> (to_csv st2 p cov, Inr None)
                                | None \<Rightarrow> (st2, Inr (Some cov)))))))"

section \<open>Joins\<close>

text \<open>
  The rows of a left join.  Each left row, in order, is paired with every right row of the
  same key, in the right table's order; a left row without a partner is kept once, padded
  with missing values.
\<close>

fun left_rows :: "('k \<times> cell list) list \<Rightarrow> ('k \<times> cell list) list \<Rightarrow> nat \<Rightarrow> ('k \<times> cell list) list" where
  "left_rows [] r w = []"
| "left_rows ((k, a) # l) r w =
     (let ms = filter (\<lambda>p. fst p = k) r
      in (if ms = [] then [(k, a @ replicate w NaN)] else map (\<lambda>p. (k, a @ snd p)) ms))
     @ left_rows l r w"

text \<open>
  \<open>pd.merge(l, r, on=keys, how="left")\<close>: \<open>KeyError\<close> when a key column is missing on
  either side; the result has the left columns followed by the right columns that are not
  keys, with the suffixes \<open>_x\<close> and \<open>_y\<close> on labels both sides carry, and a fresh index.
\<close>

definition pd_merge_left :: "frame \<Rightarrow> frame \<Rightarrow> string list \<Rightarrow> error + frame" where
  "pd_merge_left l r keys =
     (if \<not> (list_all (\<lambda>k. k \<in> set (columns l)) keys \<and> list_all (\<lambda>k. k \<in> set (columns r)) keys)
      then Inl KeyError
      else
        (let rrest = filter (\<lambda>c. c \<notin> set keys) (columns r);
             lrest = filter (\<lambda>c. c \<notin> set keys) (columns l);
             lcols = map (\<lambda>c. if c \<in> set lrest \<and> c \<in> set rrest then c @ ''_x'' else c) (columns l);
             rcols = map (\<lambda>c. if c \<in> set lrest then c @ ''_y'' else c) rrest;
             keyed_l = map (\<lambda>row. (concat (map (pick (columns l) row) keys), row)) (rows l);
             keyed_r = map (\<lambda>row. (concat (map (pick (columns r) row) keys),
                                    map snd (filter (\<lambda>p. fst p \<notin> set keys) (zip (columns r) row))))
                         (rows r);
             out = left_rows keyed_l keyed_r (length rrest)
         in Inr \<lparr>columns = lcols @ rcols,
                 index = map (\<lambda>k. I (int k)) [0..<length out],
                 rows = map snd out\<rparr>))"

text \<open>
  \<open>l.join(r)\<close>: a left join on the index labels, without suffixes, so a label carried by
  both sides raises \<open>ValueError\<close>.
\<close>

definition df_join :: "frame \<Rightarrow> frame \<Rightarrow> error + frame" where
  "df_join l r =
     (if list_ex (\<lambda>c. c \<in> set (columns r)) (columns l) then Inl ValueError
      else
        (let out = left_rows (zip (index l) (rows l)) (zip (index r) (rows r)) (length (columns r))
         in Inr \<lparr>columns = columns l @ columns r, index = map fst out, rows = map snd out\<rparr>))"

text \<open>\<open>df[lab]\<close> as one column of values.\<close>

definition column :: "frame \<Rightarrow> string \<Rightarrow> error + cell list" where
  "column f lab =
     (if lab \<in> set (columns f)
      then Inr (map (\<lambda>row. case pick (columns f) row lab of [] \<Rightarrow> NaN | x # _ \<Rightarrow> x) (rows f))
      else Inl KeyError)"

text \<open>
  \<open>DataFrame(values, index=..., columns=...)\<close> around the matrix an R routine returned:
  \<open>ValueError\<close> unless the matrix has the shape of the frame it replaces.
\<close>

definition reframe :: "frame \<Rightarrow> cell list list \<Rightarrow> error + frame" where
  "reframe f vals =
     (if length vals = length (rows f) \<and> list_all (\<lambda>v. length v = length (columns f)) vals
      then Inr (f\<lparr>rows := vals\<rparr>)
      else Inl ValueError)"

section \<open>Normalizer\<close>

definition coverage_qnorm_file :: "state \<Rightarrow> string" where
  "coverage_qnorm_file st =
     os_path_join (results_dir st) (self_name st @ ''_peaks.coverage_qnorm.csv'')"

definition normalize_coverage_quantiles ::
  "backend \<Rightarrow> state \<Rightarrow> sample list \<Rightarrow> state \<times> (error + unit)"
where
  "normalize_coverage_quantiles bk st smps =
     (case coverage st of
        None \<Rightarrow> (st, Inl AttributeError)
      | Some cov \<Rightarrow>
          (case select_labels cov (map name smps) of
             Inl e \<Rightarrow> (st, Inl e)
           | Inr to_norm \<Rightarrow>
               (case reframe to_norm (normalize_quantiles_r bk (rows to_norm)) of
                  Inl e \<Rightarrow> (st, Inl e)
                | Inr q \<Rightarrow>
                    (let st1 = st\<lparr>coverage_qnorm := Some q\<rparr> in
                     case select_labels cov [''chrom'', ''start'', ''end''] of
                       Inl e \<Rightarrow> (st1, Inl e)
                     | Inr coords \<Rightarrow>
                         (case df_join q coords of
                            Inl e \<Rightarrow> (st1, Inl e)
                          | Inr j \<Rightarrow>
                              (to_csv (st1\<lparr>coverage_qnorm := Some j\<rparr>)
                                 (coverage_qnorm_file st1) j, Inr ()))))))"

definition gccontent_length_file :: "state \<Rightarrow> string" where
  "gccontent_length_file st =
     os_path_join (results_dir st) (self_name st @ ''_peaks.gccontent_length.csv'')"

text \<open>
  \<open>nuc.ix[labels]\<close>: the rows carrying each label, a row of missing values for a label that
  is absent, and \<open>KeyError\<close> when none of the labels is present.
\<close>

definition ix_rows :: "frame \<Rightarrow> cell list \<Rightarrow> error + frame" where
  "ix_rows f labs =
     (if labs \<noteq> [] \<and> \<not> list_ex (\<lambda>k. k \<in> set (index f)) labs then Inl KeyError
      else
        (let out = left_rows (map (\<lambda>k. (k, [])) labs) (zip (index f) (rows f))
                     (length (columns f))
         in Inr \<lparr>columns = columns f, index = map fst out, rows = map snd out\<rparr>))"

definition get_peak_gccontent_length ::
  "backend \<Rightarrow> state \<Rightarrow> string option \<Rightarrow> state \<times> (error + unit)"
where
  "get_peak_gccontent_length bk st bed_file =
     (case (case bed_file of
              None \<Rightarrow> (case sites st of None \<Rightarrow> Inl AttributeError | Some b \<Rightarrow> Inr b)
            | Some p \<Rightarrow> BedTool st p) of
        Inl e \<Rightarrow> (st, Inl e)
      | Inr b \<Rightarrow>
          (let content = nucleotide_content bk b in
           if length content \<noteq> length b then (st, Inl ValueError)
           else
             (let nuc0 = \<lparr>columns = [''gc_content'', ''length''],
                          index = map (\<lambda>x. S (fmt_interval x)) b,
                          rows = map (\<lambda>p. [fst p, snd p]) content\<rparr>
              in case coverage st of
                   None \<Rightarrow> (st, Inl AttributeError)
                 | Some cov \<Rightarrow>
                     (case ix_rows nuc0 (index cov) of
                        Inl e \<Rightarrow> (st, Inl e)
                      | Inr n \<Rightarrow>
                          (to_csv (st\<lparr>nuc := Some n\<rparr>) (gccontent_length_file st) n,
                           Inr ())))))"

definition coverage_gc_corrected_file :: "state \<Rightarrow> string" where
  "coverage_gc_corrected_file st =
     os_path_join (results_dir st) (self_name st @ ''_peaks.coverage_gc_corrected.csv'')"

text \<open>
  \<open>normalize_gc_content\<close>.  Both guards test the attribute \<open>nuc\<close>: the first one decides
  whether the quantile normalisation runs, the second one whether the covariates are
  computed.
\<close>

definition gc_correct :: "backend \<Rightarrow> state \<Rightarrow> sample list \<Rightarrow> state \<times> (error + unit)" where
  "gc_correct bk st smps =
     (case coverage_qnorm st of
        None \<Rightarrow> (st, Inl AttributeError)
      | Some q \<Rightarrow>
          (case select_labels q (map name smps) of
             Inl e \<Rightarrow> (st, Inl e)
           | Inr to_norm \<Rightarrow>
               (case nuc st of
                  None \<Rightarrow> (st, Inl AttributeError)
                | Some n \<Rightarrow>
                    (case column n ''gc_content'' of
                       Inl e \<Rightarrow> (st, Inl e)
                     | Inr gc \<Rightarrow>
                         (case column n ''length'' of
                            Inl e \<Rightarrow> (st, Inl e)
                          | Inr len \<Rightarrow>
                              (case reframe to_norm (cqn bk (rows to_norm) gc len) of
                                 Inl e \<Rightarrow> (st, Inl e)
                               | Inr y \<Rightarrow>
                                   (case coverage st of
                                      None \<Rightarrow> (st, Inl AttributeError)
                                    | Some cov \<Rightarrow>
                                        (case select_labels cov [''chrom'', ''start'', ''end''] of
                                           Inl e \<Rightarrow> (st, Inl e)
                                         | Inr coords \<Rightarrow>
                                             (case df_join y coords of
                                                Inl e \<Rightarrow> (st, Inl e)
                                              | Inr j \<Rightarrow>
                                                  (to_csv (st\<lparr>coverage_gc_corrected := Some j\<rparr>)
                                                     (coverage_gc_corrected_file st) j,
                                                   Inr ()))))))))))"

definition normalize_gc_content :: "backend \<Rightarrow> state \<Rightarrow> sample list \<Rightarrow> state \<times> (error + unit)" where
  "normalize_gc_content bk st smps =
     (case (if nuc st = None then normalize_coverage_quantiles bk st smps else (st, Inr ())) of
        (st1, Inl e) \<Rightarrow> (st1, Inl e)
      | (st1, Inr u) \<Rightarrow>
          (case (if nuc st1 = None then get_peak_gccontent_length bk st1 None
                 else (st1, Inr ())) of
             (st2, Inl e) \<Rightarrow> (st2, Inl e)
           | (st2, Inr u) \<Rightarrow> gc_correct bk st2 smps))"

section \<open>Annotator\<close>

text \<open>
  Statements of \<open>annotate\<close> run in sequence on the state; the first one that raises ends
  the method and leaves the state as it is at that point.
\<close>

fun run_all :: "(state \<Rightarrow> state \<times> (error + unit)) list \<Rightarrow> state \<Rightarrow> state \<times> (error + unit)" where
  "run_all [] st = (st, Inr ())"
| "run_all (f # fs) st =
     (case f st of (st1, Inl e) \<Rightarrow> (st1, Inl e) | (st1, Inr u) \<Rightarrow> run_all fs st1)"

text \<open>One statement that replaces \<open>self.coverage_annotated\<close> by a frame computed from it.\<close>

definition on_annotated :: "(frame \<Rightarrow> error + frame) \<Rightarrow> state \<Rightarrow> state \<times> (error + unit)" where
  "on_annotated f st =
     (case coverage_annotated st of
        None \<Rightarrow> (st, Inl AttributeError)
      | Some a \<Rightarrow>
          (case f a of
             Inl e \<Rightarrow> (st, Inl e)
           | Inr a' \<Rightarrow> (st\<lparr>coverage_annotated := Some a'\<rparr>, Inr ())))"

definition coord_keys :: "string list" where
  "coord_keys = [''chrom'', ''start'', ''end'']"

text \<open>
  \<open>pd.merge(self.coverage_annotated, table[labels], on=[...], how="left")\<close> for an
  annotation attribute that may be unset.
\<close>

definition merge_annotation :: "frame option \<Rightarrow> string list \<Rightarrow> frame \<Rightarrow> error + frame" where
  "merge_annotation attr labs a =
     (case attr of
        None \<Rightarrow> Inl AttributeError
      | Some t \<Rightarrow>
          (case select_labels t labs of
             Inl e \<Rightarrow> Inl e
           | Inr t' \<Rightarrow> pd_merge_left a t' coord_keys))"

text \<open>A derived column computed row-wise over the sample columns.\<close>

definition row_stat :: "string list \<Rightarrow> string \<Rightarrow> (cell list \<Rightarrow> cell) \<Rightarrow> frame \<Rightarrow> error + frame" where
  "row_stat names lab g a =
     (case select_labels a names of
        Inl e \<Rightarrow> Inl e
      | Inr sel \<Rightarrow> Inr (set_column a lab (map g (rows sel))))"

text \<open>A derived column computed from one or two existing columns.\<close>

definition col_stat1 :: "string \<Rightarrow> string \<Rightarrow> (cell \<Rightarrow> cell) \<Rightarrow> frame \<Rightarrow> error + frame" where
  "col_stat1 src lab g a =
     (case column a src of Inl e \<Rightarrow> Inl e | Inr xs \<Rightarrow> Inr (set_column a lab (map g xs)))"

definition col_stat2 ::
  "string \<Rightarrow> string \<Rightarrow> string \<Rightarrow> (cell \<Rightarrow> cell \<Rightarrow> cell) \<Rightarrow> frame \<Rightarrow> error + frame"
where
  "col_stat2 src1 src2 lab g a =
     (case column a src1 of
        Inl e \<Rightarrow> Inl e
      | Inr xs \<Rightarrow>
          (case column a src2 of
             Inl e \<Rightarrow> Inl e
           | Inr ys \<Rightarrow> Inr (set_column a lab (map2 g xs ys))))"

definition annotated_file :: "state \<Rightarrow> string" where
  "annotated_file st =
     os_path_join (results_dir st) (self_name st @ ''_peaks.coverage_qnorm.annotated.csv'')"

text \<open>
  The last statements of \<open>annotate\<close>: the assertion on the two row counts, the index taken
  over from the coverage matrix, and the file.
\<close>

definition pair_indexes :: "state \<Rightarrow> state \<times> (error + unit)" where
  "pair_indexes st =
     (case coverage st of
        None \<Rightarrow> (st, Inl AttributeError)
      | Some cov \<Rightarrow>
          (case coverage_annotated st of
             None \<Rightarrow> (st, Inl AttributeError)
           | Some a \<Rightarrow>
               (if length (rows cov) \<noteq> length (rows a) then (st, Inl AssertionError)
                else
                  (let a' = a\<lparr>index := index cov\<rparr>
                   in (to_csv (st\<lparr>coverage_annotated := Some a'\<rparr>) (annotated_file st) a',
                       Inr ())))))"

definition annotate ::
  "backend \<Rightarrow> state \<Rightarrow> sample list \<Rightarrow> frame option \<Rightarrow> state \<times> (error + unit)"
where
  "annotate bk st smps quant_matrix =
     (let names = map name smps in
      case (case quant_matrix of
              None \<Rightarrow> (case coverage_gc_corrected st of
                          None \<Rightarrow> Inl AttributeError
                        | Some m \<Rightarrow> Inr m)
            | Some m \<Rightarrow> Inr m) of
        Inl e \<Rightarrow> (st, Inl e)
      | Inr qm \<Rightarrow>
          (case (case gene_annotation st of
                   None \<Rightarrow> Inl AttributeError
                 | Some g \<Rightarrow> pd_merge_left qm g coord_keys) of
             Inl e \<Rightarrow> (st, Inl e)
           | Inr a1 \<Rightarrow>
               run_all
                 [\<lambda>s. on_annotated (merge_annotation (region_annotation s)
                         (coord_keys @ [''genomic_region''])) s,
                  \<lambda>s. on_annotated (merge_annotation (chrom_state_annotation s)
                         (coord_keys @ [''chromatin_state''])) s,
                  \<lambda>s. on_annotated (merge_annotation (support s)
                         (coord_keys @ [''support''])) s,
                  on_annotated (row_stat names ''mean'' (row_mean bk)),
                  on_annotated (row_stat names ''variance'' (row_var bk)),
                  on_annotated (col_stat1 ''variance'' ''std_deviation'' (np_sqrt bk)),
                  on_annotated (col_stat2 ''variance'' ''mean'' ''dispersion'' (np_divide bk)),
                  on_annotated (col_stat2 ''std_deviation'' ''mean'' ''qv2''
                    (\<lambda>x y. np_square bk (np_divide bk x y))),
                  on_annotated
                    (\<lambda>a. case select_labels a names of
                            Inl e \<Rightarrow> Inl e
                          | Inr sel \<Rightarrow>
                              Inr (set_column a ''amplitude''
                                     (map (\<lambda>row. np_subtract bk (row_max bk row) (row_min bk row))
                                        (rows sel)))),
                  pair_indexes]
                 (st\<lparr>coverage_annotated := Some a1\<rparr>)))"

section \<open>Total-count normalisation and the dispatch entry point\<close>

text \<open>
  Modelled from the spec: the total-count strategy \<open>normalize_coverage_rpm\<close> and the
  dispatcher \<open>normalize\<close>, which the tests call but the sources do not contain.  The
  total-count strategy divides each sample column by its column sum and scales by a
  configurable factor (one million by default); the dispatcher takes a method name among
  \<open>total\<close>, \<open>quantile\<close> and \<open>gc_content\<close>, routes to the strategy of that name and
  returns what the strategy returns.  The matrix holds the sample columns only; a column
  whose sum is zero has no quotient, written as a missing value.
\<close>

definition column_sums :: "frame \<Rightarrow> real list" where
  "column_sums f =
     map (\<lambda>j. sum_list (map (\<lambda>row. cell_num (row ! j)) (rows f))) [0..<length (columns f)]"

definition normalize_coverage_rpm :: "real \<Rightarrow> frame \<Rightarrow> frame" where
  "normalize_coverage_rpm scale f =
     f\<lparr>rows := map (\<lambda>row. map2 (\<lambda>x t. if t = 0 then NaN else F (cell_num x / t * scale))
                             row (column_sums f))
                   (rows f)\<rparr>"

definition quantile_strategy :: "backend \<Rightarrow> frame \<Rightarrow> frame" where
  "quantile_strategy bk f = f\<lparr>rows := normalize_quantiles_r bk (rows f)\<rparr>"

definition gc_content_strategy :: "backend \<Rightarrow> cell list \<Rightarrow> cell list \<Rightarrow> frame \<Rightarrow> frame" where
  "gc_content_strategy bk gc len f = f\<lparr>rows := cqn bk (rows (quantile_strategy bk f)) gc len\<rparr>"

definition normalize ::
  "backend \<Rightarrow> cell list \<Rightarrow> cell list \<Rightarrow> real \<Rightarrow> string \<Rightarrow> frame \<Rightarrow> error + frame"
where
  "normalize bk gc len scale method f =
     (if method = ''total'' then Inr (normalize_coverage_rpm scale f)
      else if method = ''quantile'' then Inr (quantile_strategy bk f)
      else if method = ''gc_content'' then Inr (gc_content_strategy bk gc len f)
      else Inl ValueError)"

section \<open>Quantities the properties are stated against\<close>

text \<open>
  The raw per-sample indicator of a consensus region: the number of the sample's own
  intervals that overlap it (the column that \<open>intersect(peaks, wa=True, c=True)\<close> writes for
  the sample).
\<close>

definition indicator :: "state \<Rightarrow> string \<Rightarrow> sample \<Rightarrow> interval \<Rightarrow> int" where
  "indicator st region_type smp x =
     (case bed_files st (peaks_path region_type smp) of
        None \<Rightarrow> 0
      | Some b \<Rightarrow> int (length (filter (overlaps x) b)))"

definition counts_of :: "bed list \<Rightarrow> interval \<Rightarrow> int list" where
  "counts_of bs x = map (\<lambda>b. int (length (filter (overlaps x) b))) bs"

text \<open>
  The support value in the words of the data model: the sum of the per-sample indicators of
  the samples passed, each clamped to at most one, over the number of samples stored on the
  analysis.
\<close>

definition claimed_support :: "state \<Rightarrow> string \<Rightarrow> sample list \<Rightarrow> interval \<Rightarrow> real" where
  "claimed_support st region_type smps x =
     (\<Sum>y\<leftarrow>smps. real_of_int (min (indicator st region_type y x) 1)) / real (length (samples st))"

text \<open>
  The matrix of a quantification over the samples that are left: one column per sample,
  one row per distinct consensus region (none when no sample is left), each cell the count
  of the sample's alignments in the region; then the three coordinate columns are set.
\<close>

definition kept_sites :: "sample list \<Rightarrow> bed \<Rightarrow> bed" where
  "kept_sites kept s = (if kept = [] then [] else remdups s)"

definition count_frame :: "backend \<Rightarrow> sample list \<Rightarrow> bed \<Rightarrow> frame" where
  "count_frame bk kept s =
     \<lparr>columns = map name kept,
      index = map (\<lambda>x. S (fmt_interval x)) (kept_sites kept s),
      rows = map (\<lambda>x. map (\<lambda>y. I (int (count_reads bk (filtered y) (fmt_interval x)))) kept)
               (kept_sites kept s)\<rparr>"

definition with_coords :: "frame \<Rightarrow> bed \<Rightarrow> frame" where
  "with_coords f s =
     set_column
       (set_column (set_column f ''chrom'' (map (\<lambda>x. S (chrom x)) s))
          ''start'' (map (\<lambda>x. I (int (start x))) s))
       ''end'' (map (\<lambda>x. I (int (stop x))) s)"

section \<open>Example inputs\<close>

text \<open>
  Four samples with the three called peaks of the end-to-end scenario; two of them carry one
  more peak each, on the mitochondrial contig and across a blacklisted region.  Sample
  \<open>s0\<close> has no peaks file.
\<close>

definition mk_sample :: "string \<Rightarrow> sample" where
  "mk_sample n = \<lparr>name = n, genome = ''hg19'', peaks = n @ ''_peaks.narrowPeak'', filtered = n @ ''.bam''\<rparr>"

definition iv :: "string \<Rightarrow> nat \<Rightarrow> nat \<Rightarrow> interval" where
  "iv c s e = \<lparr>chrom = c, start = s, stop = e\<rparr>"

definition ex_peaks :: bed where
  "ex_peaks = [iv ''chr1'' 100 300, iv ''chr1'' 280 400, iv ''chr2'' 50 150]"

definition ex_state :: state where
  "ex_state = \<lparr>self_name = ''demo'', data_dir = ''data'', results_dir = ''results'',
     samples = map mk_sample [''s1'', ''s2'', ''s3'', ''s4''],
     sites = None, support = None, coverage = None, coverage_qnorm = None, nuc = None,
     coverage_gc_corrected = None, gene_annotation = None, region_annotation = None,
     chrom_state_annotation = None, coverage_annotated = None,
     bed_files = map_of
       [(''s1_peaks.narrowPeak'', ex_peaks),
        (''s2_peaks.narrowPeak'', ex_peaks @ [iv ''chrM'' 10 90]),
        (''s3_peaks.narrowPeak'', ex_peaks @ [iv ''chr3'' 500 700]),
        (''s4_peaks.narrowPeak'', ex_peaks),
        (''data/external/wgEncodeDacMapabilityConsensusExcludable.bed'', [iv ''chr3'' 650 800])],
     csv_files = (\<lambda>p. None),
     os_path_exists = (\<lambda>p. p \<in> set [''s1.bam'', ''s2.bam'']),
     chromsizes = (\<lambda>g c. 1000000),
     stdout = []\<rparr>"

text \<open>
  The same analysis once the consensus is in place, with four and with one stored sample;
  and an analysis of two samples whose single consensus region starts at the origin of the
  contig and holds a called peak of each.
\<close>

definition ex_support_state :: state where
  "ex_support_state =
     ex_state\<lparr>sites := Some [iv ''chr1'' 100 400, iv ''chr2'' 50 150, iv ''chr3'' 500 700]\<rparr>"

definition ex_origin_state :: state where
  "ex_origin_state =
     ex_state\<lparr>samples := [mk_sample ''s1'', mk_sample ''s2''],
              bed_files := (bed_files ex_state)(''s1_peaks.narrowPeak'' \<mapsto> [iv ''chr1'' 10 20],
                                                 ''s2_peaks.narrowPeak'' \<mapsto> [iv ''chr1'' 30 60]),
              sites := Some [iv ''chr1'' 0 400]\<rparr>"

definition ex_single_state :: state where
  "ex_single_state =
     ex_state\<lparr>samples := [mk_sample ''s1''],
              sites := Some [iv ''chr1'' 100 400, iv ''chr3'' 500 700]\<rparr>"

text \<open>
  Backends for the examples: ten alignments of sample \<open>s1\<close> in \<open>chr1:100-400\<close> and none
  elsewhere; the numeric routines are stand-ins.  Only \<open>s1\<close> and \<open>s2\<close> have an alignment
  file.
\<close>

definition ex_backend :: backend where
  "ex_backend =
     \<lparr>count_reads = (\<lambda>bam r. if bam = ''s1.bam'' \<and> r = ''chr1:100-400'' then 10 else 0),
      normalize_quantiles_r = (\<lambda>m. m),
      cqn = (\<lambda>m gc len. m),
      nucleotide_content = (\<lambda>b. map (\<lambda>x. (NaN, I (int (stop x - start x)))) b),
      row_mean = (\<lambda>r. NaN), row_var = (\<lambda>r. NaN),
      row_max = (\<lambda>r. NaN), row_min = (\<lambda>r. NaN),
      np_sqrt = (\<lambda>x. x), np_divide = (\<lambda>x y. NaN), np_subtract = (\<lambda>x y. NaN),
      np_square = (\<lambda>x. x)\<rparr>"

text \<open>
  A two-region coverage matrix with its annotation tables, every key present once; and a gene
  table in which the first region occurs twice.
\<close>

definition ex_cov :: frame where
  "ex_cov = \<lparr>columns = [''s1'', ''s2'', ''chrom'', ''start'', ''end''],
             index = [S ''chr1:100-400'', S ''chr2:50-150''],
             rows = [[I 10, I 0, S ''chr1'', I 100, I 400],
                     [I 0, I 0, S ''chr2'', I 50, I 150]]\<rparr>"

definition ex_genes :: frame where
  "ex_genes = \<lparr>columns = [''chrom'', ''start'', ''end'', ''gene_name'', ''strand'', ''distance''],
               index = [I 0, I 1],
               rows = [[S ''chr1'', I 100, I 400, S ''GENE1'', S ''+'', S ''0''],
                       [S ''chr2'', I 50, I 150, S ''GENE2'', S ''-'', S ''120'']]\<rparr>"

definition ex_genes_dup :: frame where
  "ex_genes_dup = ex_genes\<lparr>index := [I 0, I 1, I 2],
     rows := rows ex_genes @ [[S ''chr1'', I 100, I 400, S ''GENE3'', S ''+'', S ''0'']]\<rparr>"

definition ex_regions :: frame where
  "ex_regions = \<lparr>columns = [''chrom'', ''start'', ''end'', ''genomic_region''],
                 index = [I 0],
                 rows = [[S ''chr1'', I 100, I 400, S ''intron,tss2kb'']]\<rparr>"

definition ex_states :: frame where
  "ex_states = \<lparr>columns = [''chrom'', ''start'', ''end'', ''chromatin_state''],
                index = [I 0, I 1],
                rows = [[S ''chr1'', I 100, I 400, S ''1_TssA''],
                        [S ''chr2'', I 50, I 150, S ''15_Quies'']]\<rparr>"

definition ex_support :: frame where
  "ex_support = \<lparr>columns = [''chrom'', ''start'', ''end'', ''s1'', ''s2'', ''support''],
                 index = [I 0, I 1],
                 rows = [[S ''chr1'', I 100, I 400, I 2, I 2, F 1],
                         [S ''chr2'', I 50, I 150, I 1, I 1, F 1]]\<rparr>"

definition ex_annotate_state :: state where
  "ex_annotate_state =
     ex_state\<lparr>coverage := Some ex_cov, coverage_gc_corrected := Some ex_cov,
              gene_annotation := Some ex_genes, region_annotation := Some ex_regions,
              chrom_state_annotation := Some ex_states, support := Some ex_support\<rparr>"

text \<open>An analysis that has its consensus and its coverage matrix and nothing else.\<close>

definition ex_coverage_state :: state where
  "ex_coverage_state =
     ex_state\<lparr>sites := Some [iv ''chr1'' 100 400, iv ''chr2'' 50 150], coverage := Some ex_cov\<rparr>"

section \<open>Properties of the Consensus Builder\<close>

lemma py_print_fields [simp]:
  "bed_files (py_print st m) = bed_files st"
  "self_name (py_print st m) = self_name st"
  "results_dir (py_print st m) = results_dir st"
  "data_dir (py_print st m) = data_dir st"
  "sites (py_print st m) = sites st"
  "samples (py_print st m) = samples st"
  "chromsizes (py_print st m) = chromsizes st"
  "stdout (py_print st m) = m # stdout st"
  by (simp_all add: py_print_def)

lemma saveas_fields [simp]:
  "bed_files (saveas st p b) = (bed_files st)(p \<mapsto> b)"
  "self_name (saveas st p b) = self_name st"
  "results_dir (saveas st p b) = results_dir st"
  "data_dir (saveas st p b) = data_dir st"
  by (simp_all add: saveas_def)

lemma ex_fields:
  "bed_files ex_state = map_of
       [(''s1_peaks.narrowPeak'', ex_peaks),
        (''s2_peaks.narrowPeak'', ex_peaks @ [iv ''chrM'' 10 90]),
        (''s3_peaks.narrowPeak'', ex_peaks @ [iv ''chr3'' 500 700]),
        (''s4_peaks.narrowPeak'', ex_peaks),
        (''data/external/wgEncodeDacMapabilityConsensusExcludable.bed'', [iv ''chr3'' 650 800])]"
  "self_name ex_state = ''demo''"
  "data_dir ex_state = ''data''"
  "results_dir ex_state = ''results''"
  "samples ex_state = map mk_sample [''s1'', ''s2'', ''s3'', ''s4'']"
  by (simp_all add: ex_state_def)

lemmas ex_eval = ex_fields merge_def cat_def sort_bed_def intersect_v_def overlaps_def iv_def
  mk_sample_def ex_peaks_def os_path_join_def enumerate_eq_zip Let_def

lemma consensus_loop_frame:
  "consensus_loop rt ext st xs acc = (st', r) \<Longrightarrow> st' = st\<lparr>stdout := stdout st'\<rparr>"
proof (induction rt ext st xs acc rule: consensus_loop.induct)
  case (1 rt ext st acc)
  then show ?case by simp
next
  case (2 rt ext st i smp rest acc)
  define st1 where "st1 = py_print st (PrintName (name smp))"
  define st2 where "st2 = py_print st1 (PeaksNotFound smp)"
  have e1: "st1 = st\<lparr>stdout := stdout st1\<rparr>"
    by (simp add: st1_def py_print_def)
  have e2: "st2 = st\<lparr>stdout := stdout st2\<rparr>"
    by (simp add: st2_def st1_def py_print_def)
  have lift1: "st' = st1\<lparr>stdout := stdout st'\<rparr> \<Longrightarrow> st' = st\<lparr>stdout := stdout st'\<rparr>"
    by (metis e1 state.surjective state.update_convs(19))
  have lift2: "st' = st2\<lparr>stdout := stdout st'\<rparr> \<Longrightarrow> st' = st\<lparr>stdout := stdout st'\<rparr>"
    by (metis e2 state.surjective state.update_convs(19))
  show ?case
  proof (cases "load_peaks st1 rt ext smp")
    case (Inl e)
    show ?thesis
    proof (cases "e = ValueError")
      case True
      with Inl "2.prems" have "consensus_loop rt ext st2 rest acc = (st', r)"
        by (simp add: st1_def st2_def)
      with "2.IH"(1)[OF st1_def Inl True] have "st' = st2\<lparr>stdout := stdout st'\<rparr>"
        by (simp add: st2_def)
      then show ?thesis by (rule lift2)
    next
      case False
      with Inl "2.prems" have "st' = st1" by (simp add: st1_def)
      with e1 show ?thesis by simp
    qed
  next
    case (Inr pk)
    show ?thesis
    proof (cases "i = 0")
      case True
      with Inr "2.prems" have "consensus_loop rt ext st1 rest (Some (merge pk)) = (st', r)"
        by (simp add: st1_def)
      with "2.IH"(2)[OF st1_def Inr True] have "st' = st1\<lparr>stdout := stdout st'\<rparr>" by simp
      then show ?thesis by (rule lift1)
    next
      case False
      show ?thesis
      proof (cases acc)
        case None
        with False Inr "2.prems" have "st' = st1" by (simp add: st1_def)
        with e1 show ?thesis by simp
      next
        case (Some s)
        with False Inr "2.prems" have "consensus_loop rt ext st1 rest (Some (cat s (merge pk))) = (st', r)"
          by (simp add: st1_def)
        with "2.IH"(3)[OF st1_def Inr False Some] have "st' = st1\<lparr>stdout := stdout st'\<rparr>" by simp
        then show ?thesis by (rule lift1)
      qed
    qed
  qed
qed

lemma stdout_only:
  assumes "st' = st\<lparr>stdout := out\<rparr>"
  shows "bed_files st' = bed_files st" and "self_name st' = self_name st"
    and "results_dir st' = results_dir st" and "data_dir st' = data_dir st"
    and "sites st' = sites st" and "samples st' = samples st"
    and "csv_files st' = csv_files st" and "support st' = support st"
    and "coverage st' = coverage st"
  using assms by simp_all

text \<open>
  Claim C2.  Whenever \<open>get_consensus_sites\<close> returns, the consensus it stored (and wrote
  to the peak-set file) holds no interval that overlaps an interval of the blacklist file,
  and no interval on \<open>chrM\<close>.
\<close>

theorem consensus_excludes_blacklist_and_chrM:
  assumes "get_consensus_sites st smps region_type extension = (st', Inr ())"
  shows "\<exists>b bl. sites st' = Some b \<and> bed_files st' (peak_set_file st) = Some b
           \<and> bed_files st (blacklist_file st) = Some bl
           \<and> (\<forall>x\<in>set b. chrom x \<noteq> ''chrM'' \<and> (\<forall>y\<in>set bl. \<not> overlaps x y))"
proof -
  obtain st1 r where loop: "consensus_loop region_type extension st (enumerate 0 smps) None = (st1, r)"
    by (cases "consensus_loop region_type extension st (enumerate 0 smps) None") blast
  from consensus_loop_frame[OF loop] have fr: "st1 = st\<lparr>stdout := stdout st1\<rparr>" .
  note fs = stdout_only[OF fr]
  have bf: "bed_files st1 = bed_files st"
    by (rule fs)
  have blf: "blacklist_file st1 = blacklist_file st"
    unfolding blacklist_file_def by (simp only: fs)
  have psf: "peak_set_file st1 = peak_set_file st"
    unfolding peak_set_file_def by (simp only: fs)
  from assms loop obtain acc where r: "r = Inr (Some acc)"
    by (auto simp: get_consensus_sites_def split: sum.splits option.splits)
  from assms loop r obtain bl where bl: "bed_files st (blacklist_file st) = Some bl"
    by (auto simp: get_consensus_sites_def BedTool_def bf blf split: sum.splits option.splits)
  define b where "b = filter (\<lambda>x. chrom x \<noteq> ''chrM'') (intersect_v (merge acc) bl)"
  define st2 where "st2 = saveas st1 (peak_set_file st) b"
  have p2: "peak_set_file st2 = peak_set_file st"
    using psf by (simp add: st2_def saveas_def peak_set_file_def)
  have b2: "bed_files st2 (peak_set_file st) = Some b"
    by (simp add: st2_def saveas_def)
  from assms loop r bl have "st' = st2\<lparr>sites := Some b\<rparr>"
    by (simp add: get_consensus_sites_def BedTool_def bf blf psf Let_def b_def[symmetric]
        st2_def[symmetric] p2 b2)
  then have "sites st' = Some b" and "bed_files st' (peak_set_file st) = Some b"
    using b2 by simp_all
  moreover have "\<forall>x\<in>set b. chrom x \<noteq> ''chrM'' \<and> (\<forall>y\<in>set bl. \<not> overlaps x y)"
    by (auto simp: b_def intersect_v_def list_ex_iff)
  ultimately show ?thesis using bl by blast
qed


theorem consensus_excludes_blacklist_and_chrM_witness:
  "snd (get_consensus_sites ex_state (samples ex_state) ''peaks'' 250) = Inr ()
   \<and> (\<exists>b bl. sites (fst (get_consensus_sites ex_state (samples ex_state) ''peaks'' 250)) = Some b
         \<and> bed_files (fst (get_consensus_sites ex_state (samples ex_state) ''peaks'' 250))
             (peak_set_file ex_state) = Some b
         \<and> bed_files ex_state (blacklist_file ex_state) = Some bl
         \<and> (\<forall>x\<in>set b. chrom x \<noteq> ''chrM'' \<and> (\<forall>y\<in>set bl. \<not> overlaps x y)))"
proof -
  have h: "snd (get_consensus_sites ex_state (samples ex_state) ''peaks'' 250) = Inr ()"
    by (simp add: get_consensus_sites_def load_peaks_def BedTool_def ex_fields merge_def cat_def
        sort_bed_def intersect_v_def overlaps_def iv_def mk_sample_def ex_peaks_def
        peak_set_file_def blacklist_file_def os_path_join_def enumerate_eq_zip)
  have "get_consensus_sites ex_state (samples ex_state) ''peaks'' 250
        = (fst (get_consensus_sites ex_state (samples ex_state) ''peaks'' 250), Inr ())"
    using h by (metis prod.collapse)
  from consensus_excludes_blacklist_and_chrM[OF this] h show ?thesis by blast
qed

text \<open>
  The end-to-end scenario: the four samples give the merged regions \<open>chr1:100-400\<close> and
  \<open>chr2:50-150\<close>; the peak on \<open>chrM\<close> and the one across the blacklist are gone.
\<close>

lemma consensus_scenario:
  "sites (fst (get_consensus_sites ex_state (samples ex_state) ''peaks'' 250))
     = Some [iv ''chr1'' 100 400, iv ''chr2'' 50 150]"
  by (simp add: get_consensus_sites_def load_peaks_def BedTool_def ex_fields merge_def cat_def
      sort_bed_def intersect_v_def overlaps_def iv_def mk_sample_def ex_peaks_def
      peak_set_file_def blacklist_file_def os_path_join_def enumerate_eq_zip)

lemma load_peaks_py_print [simp]: "load_peaks (py_print st m) rt ext y = load_peaks st rt ext y"
  by (simp add: load_peaks_def BedTool_def py_print_def split: option.splits)

lemma load_peaks_error: "load_peaks st rt ext y = Inl e \<Longrightarrow> e = ValueError"
  by (auto simp: load_peaks_def BedTool_def split: if_splits option.splits sum.splits)

lemma consensus_loop_bound:
  "\<exists>st' a'. consensus_loop rt ext st (enumerate (Suc n) ys) (Some a) = (st', Inr (Some a'))"
proof (induction ys arbitrary: n st a)
  case Nil
  then show ?case by simp
next
  case (Cons y ys)
  show ?case
  proof (cases "load_peaks st rt ext y")
    case (Inl e)
    then have "e = ValueError" by (rule load_peaks_error)
    with Inl Cons.IH[of "py_print (py_print st (PrintName (name y))) (PeaksNotFound y)" "Suc n" a]
    show ?thesis by (simp add: Let_def)
  next
    case (Inr pk)
    with Cons.IH[of "py_print st (PrintName (name y))" "Suc n" "cat a (merge pk)"]
    show ?thesis by (simp add: Let_def)
  qed
qed

text \<open>
  When the first sample of the list has its peaks file (and the blacklist file exists), the
  consensus is built whichever of the later samples lack theirs.
\<close>

lemma consensus_skips_later_missing:
  assumes first: "load_peaks st rt ext y = Inr pk"
    and bl: "bed_files st (blacklist_file st) = Some b"
  shows "snd (get_consensus_sites st (y # ys) rt ext) = Inr ()"
proof -
  from consensus_loop_bound[of rt ext "py_print st (PrintName (name y))" 0 ys "merge pk"]
  obtain st1 a where
    "consensus_loop rt ext (py_print st (PrintName (name y))) (enumerate (Suc 0) ys)
       (Some (merge pk)) = (st1, Inr (Some a))"
    by blast
  with first have loop: "consensus_loop rt ext st (enumerate 0 (y # ys)) None = (st1, Inr (Some a))"
    by (simp add: Let_def)
  note fs = stdout_only[OF consensus_loop_frame[OF loop]]
  have blf: "blacklist_file st1 = blacklist_file st"
    unfolding blacklist_file_def by (simp only: fs)
  show ?thesis
    unfolding get_consensus_sites_def loop
    by (simp add: BedTool_def blf fs bl Let_def saveas_def peak_set_file_def)
qed

text \<open>
  Claim C5.  A sample without a peaks file is skipped only when it is not the first of the
  list: \<open>sites\<close> is first assigned in the iteration with \<open>i == 0\<close>, so when that
  iteration is skipped the next loadable sample reaches \<open>sites.cat\<close> with \<open>sites\<close>
  unbound.  With the same two samples in the other order the consensus is built.
\<close>

theorem first_sample_missing_is_fatal:
  "bed_files ex_state (peaks (mk_sample ''s0'')) = None
   \<and> bed_files ex_state (peaks (mk_sample ''s1'')) = Some ex_peaks
   \<and> snd (get_consensus_sites ex_state [mk_sample ''s0'', mk_sample ''s1''] ''peaks'' 250)
       = Inl UnboundLocalError
   \<and> snd (get_consensus_sites ex_state [mk_sample ''s1'', mk_sample ''s0''] ''peaks'' 250)
       = Inr ()"
  by (simp add: get_consensus_sites_def load_peaks_def BedTool_def ex_fields merge_def cat_def
      sort_bed_def intersect_v_def overlaps_def iv_def mk_sample_def ex_peaks_def
      peak_set_file_def blacklist_file_def os_path_join_def enumerate_eq_zip)

section \<open>Properties of the Support Scorer\<close>

lemmas support_eval = calculate_peak_support_def peaks_path_def intersect_count_def
  to_dataframe_def set_column_def support_value_def to_csv_def binary_support_file_def
  support_file_def ex_support_state_def ex_single_state_def ex_origin_state_def

lemma support_loop_frame:
  "support_loop rt st xs acc = (st', r) \<Longrightarrow> st' = st\<lparr>stdout := stdout st'\<rparr>"
proof (induction rt st xs acc rule: support_loop.induct)
  case (1 rt st acc)
  then show ?case by simp
next
  case (2 rt st i smp rest acc)
  define st1 where "st1 = py_print st (PrintName (name smp))"
  have e1: "st1 = st\<lparr>stdout := stdout st1\<rparr>"
    by (simp add: st1_def py_print_def)
  have lift1: "st' = st1\<lparr>stdout := stdout st'\<rparr> \<Longrightarrow> st' = st\<lparr>stdout := stdout st'\<rparr>"
    by (metis e1 state.surjective state.update_convs(19))
  have sf: "sites st1 = sites st" and bf: "bed_files st1 = bed_files st"
    by (simp_all add: st1_def)
  define first where "first = (if i = 0
            then (case sites st1 of
                    None \<Rightarrow> Inl AttributeError
                  | Some s \<Rightarrow> Inr (map (\<lambda>x. (x, [])) s))
            else (case acc of None \<Rightarrow> Inl UnboundLocalError | Some a \<Rightarrow> Inr a))"
  have step: "support_loop rt st ((i, smp) # rest) acc =
     (case first of
        Inl e \<Rightarrow> (st1, Inl e)
      | Inr a \<Rightarrow>
          (case bed_files st1 (peaks_path rt smp) of
             None \<Rightarrow> (st1, Inl BEDToolsError)
           | Some b \<Rightarrow> support_loop rt st1 rest (Some (intersect_count a b))))"
    unfolding first_def st1_def by (simp add: Let_def)
  show ?case
  proof (cases first)
    case (Inl e)
    with "2.prems" step have "st' = st1" by simp
    with e1 show ?thesis by simp
  next
    case (Inr a)
    show ?thesis
    proof (cases "bed_files st1 (peaks_path rt smp)")
      case None
      with Inr "2.prems" step have "st' = st1" by simp
      with e1 show ?thesis by simp
    next
      case (Some b)
      with Inr "2.prems" step have "support_loop rt st1 rest (Some (intersect_count a b)) = (st', r)"
        by simp
      with "2.IH"[OF st1_def Inr[unfolded first_def] Some] have "st' = st1\<lparr>stdout := stdout st'\<rparr>" by simp
      then show ?thesis by (rule lift1)
    qed
  qed
qed

lemma intersect_count_counts:
  "intersect_count (map (\<lambda>p. (fst p, snd p @ counts_of bs (fst p))) a0) b
     = map (\<lambda>p. (fst p, snd p @ counts_of (bs @ [b]) (fst p))) a0"
  by (simp add: intersect_count_def counts_of_def case_prod_beta)

lemma support_loop_tail:
  "support_loop rt st (enumerate (Suc n) smps) (Some (map (\<lambda>p. (fst p, snd p @ counts_of bs0 (fst p))) a0)) = (st1, Inr r) \<Longrightarrow>
     \<exists>bs. map (\<lambda>y. bed_files st (peaks_path rt y)) smps = map Some bs
        \<and> r = Some (map (\<lambda>p. (fst p, snd p @ counts_of (bs0 @ bs) (fst p))) a0)"
proof (induction smps arbitrary: n bs0 st)
  case Nil
  then show ?case by simp
next
  case (Cons y ys)
  define st2 where "st2 = py_print st (PrintName (name y))"
  have bf: "bed_files st2 = bed_files st" by (simp add: st2_def py_print_def)
  from Cons.prems obtain b where b: "bed_files st (peaks_path rt y) = Some b"
    by (cases "bed_files st (peaks_path rt y)") (auto simp: Let_def st2_def[symmetric] bf)
  from Cons.prems b have
    "support_loop rt st2 (enumerate (Suc (Suc n)) ys)
       (Some (map (\<lambda>p. (fst p, snd p @ counts_of (bs0 @ [b]) (fst p))) a0)) = (st1, Inr r)"
    by (simp add: Let_def st2_def[symmetric] bf intersect_count_counts)
  from Cons.IH[OF this] obtain bs where
    bs: "map (\<lambda>y. bed_files st2 (peaks_path rt y)) ys = map Some bs"
    and r: "r = Some (map (\<lambda>p. (fst p, snd p @ counts_of ((bs0 @ [b]) @ bs) (fst p))) a0)"
    by blast
  have "map (\<lambda>y. bed_files st (peaks_path rt y)) (y # ys) = map Some (b # bs)"
    using b bs by (simp add: bf)
  moreover have "r = Some (map (\<lambda>p. (fst p, snd p @ counts_of (bs0 @ (b # bs)) (fst p))) a0)"
    using r by simp
  ultimately show ?case by blast
qed

lemma support_loop_result:
  assumes "support_loop rt st (enumerate 0 smps) None = (st1, Inr (Some a))"
  shows "\<exists>s bs. sites st = Some s
           \<and> map (\<lambda>y. bed_files st (peaks_path rt y)) smps = map Some bs
           \<and> a = map (\<lambda>x. (x, counts_of bs x)) s"
proof (cases smps)
  case Nil
  with assms show ?thesis by simp
next
  case (Cons y ys)
  define st2 where "st2 = py_print st (PrintName (name y))"
  have bf: "bed_files st2 = bed_files st" and sf: "sites st2 = sites st"
    by (simp_all add: st2_def py_print_def)
  from assms Cons obtain s where s: "sites st = Some s"
    by (cases "sites st") (auto simp: Let_def st2_def[symmetric] sf)
  from assms Cons s obtain b where b: "bed_files st (peaks_path rt y) = Some b"
    by (cases "bed_files st (peaks_path rt y)") (auto simp: Let_def st2_def[symmetric] bf sf)
  have e: "intersect_count (map (\<lambda>x. (x, [])) s) b
             = map (\<lambda>p. (fst p, snd p @ counts_of [b] (fst p))) (map (\<lambda>x. (x, [])) s)"
    by (simp add: intersect_count_def counts_of_def)
  from assms Cons s b have
    "support_loop rt st2 (enumerate (Suc 0) ys)
       (Some (map (\<lambda>p. (fst p, snd p @ counts_of [b] (fst p))) (map (\<lambda>x. (x, [])) s)))
     = (st1, Inr (Some a))"
    by (simp add: Let_def st2_def[symmetric] bf sf e del: map_map)
  from support_loop_tail[OF this] obtain bs where
    bs: "map (\<lambda>y. bed_files st2 (peaks_path rt y)) ys = map Some bs"
    and a: "a = map (\<lambda>p. (fst p, snd p @ counts_of ([b] @ bs) (fst p))) (map (\<lambda>x. (x, [])) s)"
    by blast
  have "map (\<lambda>y. bed_files st (peaks_path rt y)) smps = map Some (b # bs)"
    using Cons b bs by (simp add: bf)
  moreover have "a = map (\<lambda>x. (x, counts_of (b # bs) x)) s"
    using a by simp
  ultimately show ?thesis using s by blast
qed


lemma map2_same: "map2 f xs (map g xs) = map (\<lambda>x. f x (g x)) xs"
  by (induction xs) simp_all

lemma pick_append:
  "length cs = length r \<Longrightarrow> pick (cs @ cs') (r @ r') lab = pick cs r lab @ pick cs' r' lab"
  by (simp add: pick_def)

lemma pick_notin: "lab \<notin> set cs \<Longrightarrow> pick cs r lab = []"
  by (auto simp: pick_def filter_empty_conv dest: set_zip_leftD)

lemma pick_map_distinct:
  "distinct (map f xs) \<Longrightarrow> y \<in> set xs \<Longrightarrow> pick (map f xs) (map g xs) (f y) = [g y]"
proof (induction xs)
  case Nil
  then show ?case by simp
next
  case (Cons x xs)
  have split: "pick (map f (x # xs)) (map g (x # xs)) (f y)
                 = (if f x = f y then [g x] else []) @ pick (map f xs) (map g xs) (f y)"
    by (simp add: pick_def)
  show ?case
  proof (cases "y = x")
    case True
    from Cons.prems have "f x \<notin> set (map f xs)" by simp
    then have "pick (map f xs) (map g xs) (f x) = []" by (rule pick_notin)
    with True split show ?thesis by simp
  next
    case False
    with Cons.prems have y: "y \<in> set xs" by simp
    with Cons.prems have "f x \<noteq> f y" by force
    moreover from Cons.prems y have "pick (map f xs) (map g xs) (f y) = [g y]"
      by (intro Cons.IH) simp_all
    ultimately show ?thesis using split by simp
  qed
qed

lemma pick_replaced:
  "c \<in> set (pick cols (map2 (\<lambda>l x. if l = lab then v else x) cols row) lab) \<Longrightarrow> c = v"
proof (induction cols arbitrary: row)
  case Nil
  then show ?case by (simp add: pick_def)
next
  case (Cons l cols)
  show ?case
  proof (cases row)
    case Nil
    with Cons.prems show ?thesis by (simp add: pick_def)
  next
    case (Cons x xs)
    with Cons.prems Cons.IH[of xs] show ?thesis
      by (auto simp: pick_def split: if_splits)
  qed
qed

lemma set_column_pick:
  assumes wf: "\<forall>row\<in>set (rows f). length row = length (columns f)"
    and row': "row' \<in> set (rows (set_column f lab (map g (rows f))))"
    and c: "c \<in> set (pick (columns (set_column f lab (map g (rows f)))) row' lab)"
  shows "\<exists>row\<in>set (rows f). c = g row"
proof (cases "lab \<in> set (columns f)")
  case True
  then have cols: "columns (set_column f lab (map g (rows f))) = columns f"
    and rws: "rows (set_column f lab (map g (rows f)))
              = map (\<lambda>row. map2 (\<lambda>l x. if l = lab then g row else x) (columns f) row) (rows f)"
    by (simp_all add: set_column_def map2_same)
  from row' rws obtain row where row: "row \<in> set (rows f)"
    and r: "row' = map2 (\<lambda>l x. if l = lab then g row else x) (columns f) row"
    by auto
  from c cols r have "c = g row" by (auto dest: pick_replaced)
  with row show ?thesis by blast
next
  case False
  then have cols: "columns (set_column f lab (map g (rows f))) = columns f @ [lab]"
    and rws: "rows (set_column f lab (map g (rows f))) = map (\<lambda>row. row @ [g row]) (rows f)"
    by (simp_all add: set_column_def map2_same)
  from row' rws obtain row where row: "row \<in> set (rows f)" and r: "row' = row @ [g row]"
    by auto
  from wf row have len: "length (columns f) = length row" by simp
  have "pick (columns f @ [lab]) (row @ [g row]) lab = pick (columns f) row lab @ pick [lab] [g row] lab"
    using len by (rule pick_append)
  also have "\<dots> = [g row]"
    using False by (simp add: pick_notin) (simp add: pick_def)
  finally have "c = g row" using c cols r by simp
  with row show ?thesis by blast
qed

lemma calculate_peak_support_result:
  assumes "calculate_peak_support st smps rt = (st', Inr ())"
  shows "\<exists>s bs. sites st = Some s
           \<and> map (\<lambda>y. bed_files st (peaks_path rt y)) smps = map Some bs
           \<and> (samples st \<noteq> [] \<or> s = [])
           \<and> support st' = Some (set_column (to_dataframe (map (\<lambda>x. (x, counts_of bs x)) s) smps)
                 ''support''
                 (map (support_value (length smps) (length (samples st)))
                    (rows (to_dataframe (map (\<lambda>x. (x, counts_of bs x)) s) smps))))"
proof -
  obtain st1 r where loop: "support_loop rt st (enumerate 0 smps) None = (st1, r)"
    by (cases "support_loop rt st (enumerate 0 smps) None") blast
  note fs = stdout_only[OF support_loop_frame[OF loop]]
  from assms loop obtain a where r: "r = Inr (Some a)"
    by (auto simp: calculate_peak_support_def split: sum.splits option.splits)
  from support_loop_result[OF loop[unfolded r]] obtain s bs where
    s: "sites st = Some s"
    and bs: "map (\<lambda>y. bed_files st (peaks_path rt y)) smps = map Some bs"
    and a: "a = map (\<lambda>x. (x, counts_of bs x)) s"
    by blast
  have smp: "samples (to_csv st1 p f) = samples st" for p f
    by (simp add: to_csv_def fs)
  from assms loop r have ne: "\<not> (samples st = [] \<and> rows (to_dataframe a smps) \<noteq> [])"
    by (auto simp: calculate_peak_support_def Let_def smp split: if_splits)
  then have "samples st \<noteq> [] \<or> s = []"
    by (auto simp: to_dataframe_def a)
  moreover from assms loop r ne have
    "support st' = Some (set_column (to_dataframe a smps) ''support''
        (map (support_value (length smps) (length (samples st))) (rows (to_dataframe a smps))))"
    by (auto simp: calculate_peak_support_def Let_def smp to_csv_def fs split: if_splits)
  ultimately show ?thesis using s bs a by blast
qed

lemma counts_of_indicator:
  "map (\<lambda>y. bed_files st (peaks_path rt y)) smps = map Some bs \<Longrightarrow>
     counts_of bs x = map (\<lambda>y. indicator st rt y x) smps"
proof (induction smps arbitrary: bs)
  case Nil
  then show ?case by (simp add: counts_of_def)
next
  case (Cons y ys)
  then obtain b bs' where bs: "bs = b # bs'" by (cases bs) auto
  with Cons.prems have b: "bed_files st (peaks_path rt y) = Some b"
    and rest: "map (\<lambda>y. bed_files st (peaks_path rt y)) ys = map Some bs'"
    by simp_all
  from Cons.IH[OF rest] have "counts_of bs' x = map (\<lambda>y. indicator st rt y x) ys" .
  then show ?case using b bs by (simp add: counts_of_def indicator_def)
qed

lemma clamp_bounds: "clamp c \<le> 1"
  by (cases c) simp_all

lemma clamp_nonneg: "(\<forall>i. c = I i \<longrightarrow> 0 \<le> i) \<Longrightarrow> (\<forall>v. c \<noteq> F v) \<Longrightarrow> 0 \<le> clamp c"
  by (cases c) simp_all

lemma sum_clamp_le: "sum_list (map clamp cs) \<le> real (length cs)"
proof (induction cs)
  case Nil
  then show ?case by simp
next
  case (Cons c cs)
  with clamp_bounds[of c] show ?case by simp
qed

lemma sum_clamp_nonneg:
  "\<forall>c\<in>set cs. (\<forall>i. c = I i \<longrightarrow> 0 \<le> i) \<and> (\<forall>v. c \<noteq> F v) \<Longrightarrow> 0 \<le> sum_list (map clamp cs)"
  by (intro sum_list_nonneg) (auto intro: clamp_nonneg)

lemma to_dataframe_rows:
  "rows (to_dataframe (map (\<lambda>x. (x, counts_of bs x)) s) smps)
     = map (\<lambda>x. [S (chrom x), I (int (start x)), I (int (stop x))] @ map I (counts_of bs x)) s"
  by (simp add: to_dataframe_def)

lemma to_dataframe_columns:
  "columns (to_dataframe a smps) = [''chrom'', ''start'', ''end''] @ map name smps"
  by (simp add: to_dataframe_def)

text \<open>
  Every value of the \<open>support\<close> column is a non-negative float that, multiplied by the
  number of samples stored on the analysis, is at most the number of samples passed.
\<close>

lemma support_values_bounded:
  assumes ok: "calculate_peak_support st smps region_type = (st', Inr ())"
  shows "\<exists>f s. support st' = Some f \<and> sites st = Some s \<and> length (rows f) = length s
           \<and> ''support'' \<in> set (columns f)
           \<and> (\<forall>row\<in>set (rows f). \<forall>c\<in>set (pick (columns f) row ''support'').
                 \<exists>v. c = F v \<and> 0 \<le> v \<and> 0 < length (samples st)
                   \<and> v * real (length (samples st)) \<le> real (length smps))"
proof -
  from calculate_peak_support_result[OF ok] obtain s bs where
    s: "sites st = Some s"
    and bs: "map (\<lambda>y. bed_files st (peaks_path region_type y)) smps = map Some bs"
    and ne: "samples st \<noteq> [] \<or> s = []"
    and f: "support st' = Some (set_column (to_dataframe (map (\<lambda>x. (x, counts_of bs x)) s) smps)
                 ''support''
                 (map (support_value (length smps) (length (samples st)))
                    (rows (to_dataframe (map (\<lambda>x. (x, counts_of bs x)) s) smps))))"
    by blast
  define f0 where "f0 = to_dataframe (map (\<lambda>x. (x, counts_of bs x)) s) smps"
  define g where "g = support_value (length smps) (length (samples st))"
  define f1 where "f1 = set_column f0 ''support'' (map g (rows f0))"
  have f': "support st' = Some f1"
    using f by (simp add: f1_def f0_def g_def)
  have lenbs: "length bs = length smps"
    using bs by (metis length_map)
  have rows0: "rows f0 = map (\<lambda>x. [S (chrom x), I (int (start x)), I (int (stop x))] @ map I (counts_of bs x)) s"
    by (simp add: f0_def to_dataframe_rows)
  have wf: "\<forall>row\<in>set (rows f0). length row = length (columns f0)"
    unfolding rows0 by (auto simp: f0_def to_dataframe_columns counts_of_def lenbs)
  have nrows: "length (rows f1) = length s"
    by (simp add: f1_def set_column_def map2_same rows0)
  have col: "''support'' \<in> set (columns f1)"
    by (simp add: f1_def set_column_def)
  have bound: "\<exists>v. c = F v \<and> 0 \<le> v \<and> 0 < length (samples st)
                 \<and> v * real (length (samples st)) \<le> real (length smps)"
    if row: "row \<in> set (rows f1)" and c: "c \<in> set (pick (columns f1) row ''support'')" for row c
  proof -
    from set_column_pick[OF wf row[unfolded f1_def] c[unfolded f1_def]]
    obtain row0 where row0: "row0 \<in> set (rows f0)" and cg: "c = g row0" by blast
    from row0 rows0 obtain x where x: "x \<in> set s"
      and r0: "row0 = [S (chrom x), I (int (start x)), I (int (stop x))] @ map I (counts_of bs x)"
      by auto
    from x ne have tot: "0 < length (samples st)" by auto
    have cells: "\<forall>c\<in>set row0. (\<forall>i. c = I i \<longrightarrow> 0 \<le> i) \<and> (\<forall>v. c \<noteq> F v)"
      by (auto simp: r0 counts_of_def)
    then have "\<forall>c\<in>set (take (length smps) row0). (\<forall>i. c = I i \<longrightarrow> 0 \<le> i) \<and> (\<forall>v. c \<noteq> F v)"
      by (meson in_set_takeD)
    then have lo: "0 \<le> sum_list (map clamp (take (length smps) row0))"
      by (rule sum_clamp_nonneg)
    have "sum_list (map clamp (take (length smps) row0)) \<le> real (length (take (length smps) row0))"
      by (rule sum_clamp_le)
    also have "\<dots> \<le> real (length smps)" by simp
    finally have hi: "sum_list (map clamp (take (length smps) row0)) \<le> real (length smps)" .
    define v where "v = sum_list (map clamp (take (length smps) row0)) / real (length (samples st))"
    have "c = F v" by (simp add: cg g_def support_value_def v_def)
    moreover have "0 \<le> v" using lo tot by (simp add: v_def)
    moreover have "v * real (length (samples st)) \<le> real (length smps)"
      using hi tot by (simp add: v_def)
    ultimately show ?thesis using tot by blast
  qed
  from f' s nrows col bound show ?thesis by blast
qed

text \<open>
  When no more samples are passed than the analysis stores, every value of the \<open>support\<close>
  column of the table that \<open>calculate_peak_support\<close> stores lies between 0 and 1, and the
  table has one row per consensus region.
\<close>

theorem support_within_unit_interval:
  assumes ok: "calculate_peak_support st smps region_type = (st', Inr ())"
    and le: "length smps \<le> length (samples st)"
  shows "\<exists>f s. support st' = Some f \<and> sites st = Some s \<and> length (rows f) = length s
           \<and> ''support'' \<in> set (columns f)
           \<and> (\<forall>row\<in>set (rows f). \<forall>c\<in>set (pick (columns f) row ''support'').
                 \<exists>v. c = F v \<and> 0 \<le> v \<and> v \<le> 1)"
proof -
  from support_values_bounded[OF ok] obtain f s where
    f: "support st' = Some f" and s: "sites st = Some s" and n: "length (rows f) = length s"
    and c: "''support'' \<in> set (columns f)"
    and b: "\<forall>row\<in>set (rows f). \<forall>c\<in>set (pick (columns f) row ''support'').
                 \<exists>v. c = F v \<and> 0 \<le> v \<and> 0 < length (samples st)
                   \<and> v * real (length (samples st)) \<le> real (length smps)"
    by blast
  have "\<exists>v. c = F v \<and> 0 \<le> v \<and> v \<le> 1"
    if "row \<in> set (rows f)" and "c \<in> set (pick (columns f) row ''support'')" for row c
  proof -
    from b that obtain v where v: "c = F v" "0 \<le> v" and tot: "0 < length (samples st)"
      and m: "v * real (length (samples st)) \<le> real (length smps)"
      by blast
    from m le have "v * real (length (samples st)) \<le> 1 * real (length (samples st))"
      by simp
    with tot have "v \<le> 1" by simp
    with v show ?thesis by blast
  qed
  with f s n c show ?thesis by blast
qed

text \<open>
  The divisor is the number of samples stored on the analysis: when fewer samples are
  passed than are stored, every support value is below 1.
\<close>

lemma support_below_one_for_fewer_samples:
  assumes ok: "calculate_peak_support st smps region_type = (st', Inr ())"
    and less: "length smps < length (samples st)"
  shows "\<exists>f. support st' = Some f
           \<and> (\<forall>row\<in>set (rows f). \<forall>c\<in>set (pick (columns f) row ''support'').
                 \<exists>v. c = F v \<and> v < 1)"
proof -
  from support_values_bounded[OF ok] obtain f where
    f: "support st' = Some f"
    and b: "\<forall>row\<in>set (rows f). \<forall>c\<in>set (pick (columns f) row ''support'').
                 \<exists>v. c = F v \<and> 0 \<le> v \<and> 0 < length (samples st)
                   \<and> v * real (length (samples st)) \<le> real (length smps)"
    by blast
  have "\<exists>v. c = F v \<and> v < 1"
    if "row \<in> set (rows f)" and "c \<in> set (pick (columns f) row ''support'')" for row c
  proof -
    from b that obtain v where v: "c = F v" and tot: "0 < length (samples st)"
      and m: "v * real (length (samples st)) \<le> real (length smps)"
      by blast
    from m less have "v * real (length (samples st)) < 1 * real (length (samples st))"
      by simp
    with tot have "v < 1" by simp
    with v show ?thesis by blast
  qed
  with f show ?thesis by blast
qed

theorem support_within_unit_interval_witness:
  "snd (calculate_peak_support ex_support_state (samples ex_support_state) ''peaks'') = Inr ()
   \<and> length (samples ex_support_state) \<le> length (samples ex_support_state)
   \<and> (\<exists>f s. support (fst (calculate_peak_support ex_support_state (samples ex_support_state)
                            ''peaks'')) = Some f
          \<and> sites ex_support_state = Some s \<and> length (rows f) = length s
          \<and> ''support'' \<in> set (columns f)
          \<and> (\<forall>row\<in>set (rows f). \<forall>c\<in>set (pick (columns f) row ''support'').
                \<exists>v. c = F v \<and> 0 \<le> v \<and> v \<le> 1))"
proof -
  have h: "snd (calculate_peak_support ex_support_state (samples ex_support_state) ''peaks'') = Inr ()"
    by (simp add: support_eval ex_eval)
  have "calculate_peak_support ex_support_state (samples ex_support_state) ''peaks''
        = (fst (calculate_peak_support ex_support_state (samples ex_support_state) ''peaks''), Inr ())"
    using h by (metis prod.collapse)
  from support_within_unit_interval[OF this] h show ?thesis by blast
qed

text \<open>
  With two samples passed to an analysis that stores one, the support of both regions is 2,
  also for the region that no sample overlaps.
\<close>

theorem support_exceeds_one:
  "snd (calculate_peak_support ex_single_state [mk_sample ''s1'', mk_sample ''s2''] ''peaks'') = Inr ()
   \<and> support (fst (calculate_peak_support ex_single_state
                     [mk_sample ''s1'', mk_sample ''s2''] ''peaks''))
     = Some \<lparr>columns = [''chrom'', ''start'', ''end'', ''s1'', ''s2'', ''support''],
              index = [I 0, I 1],
              rows = [[S ''chr1'', I 100, I 400, I 2, I 2, F 2],
                      [S ''chr3'', I 500, I 700, I 0, I 0, F 2]]\<rparr>"
  by (simp add: support_eval ex_eval)

text \<open>
  Claim C10.  One sample is stored and passed; it has called peaks inside \<open>chr1:100-400\<close>
  and none on \<open>chr3\<close>.  The clamped indicator sum over the number of stored samples is 1
  for the first region and 0 for the second, but the stored support is 1 for both: the
  values summed are those of the first \<open>len(samples)\<close> columns of the table, here the
  \<open>chrom\<close> column alone.
\<close>

theorem support_sums_leading_columns:
  "support (fst (calculate_peak_support ex_single_state [mk_sample ''s1''] ''peaks''))
     = Some \<lparr>columns = [''chrom'', ''start'', ''end'', ''s1'', ''support''],
              index = [I 0, I 1],
              rows = [[S ''chr1'', I 100, I 400, I 2, F 1],
                      [S ''chr3'', I 500, I 700, I 0, F 1]]\<rparr>
   \<and> claimed_support ex_single_state ''peaks'' [mk_sample ''s1''] (iv ''chr1'' 100 400) = 1
   \<and> claimed_support ex_single_state ''peaks'' [mk_sample ''s1''] (iv ''chr3'' 500 700) = 0"
  by (simp add: support_eval ex_eval claimed_support_def indicator_def)

text \<open>
  Claim C3.  Two samples are stored and passed, and the consensus region \<open>chr1:0-400\<close>
  holds one called peak of each: both indicators are 1, their sum reaches the sample
  count, and the clamped sum over the number of samples is 1.  The stored support is one
  half: the values summed are those of the first \<open>len(samples)\<close> columns, here \<open>chrom\<close>
  and \<open>start\<close>, and a start of 0 adds nothing.
\<close>

theorem support_of_region_at_origin:
  "indicator ex_origin_state ''peaks'' (mk_sample ''s1'') (iv ''chr1'' 0 400) = 1
   \<and> indicator ex_origin_state ''peaks'' (mk_sample ''s2'') (iv ''chr1'' 0 400) = 1
   \<and> claimed_support ex_origin_state ''peaks'' (samples ex_origin_state) (iv ''chr1'' 0 400) = 1
   \<and> snd (calculate_peak_support ex_origin_state (samples ex_origin_state) ''peaks'') = Inr ()
   \<and> support (fst (calculate_peak_support ex_origin_state (samples ex_origin_state) ''peaks''))
       = Some \<lparr>columns = [''chrom'', ''start'', ''end'', ''s1'', ''s2'', ''support''],
                index = [I 0],
                rows = [[S ''chr1'', I 0, I 400, I 1, I 1, F (1 / 2)]]\<rparr>"
  by (simp add: support_eval ex_eval claimed_support_def indicator_def)

lemma row_sum_ints: "row_sum (map (\<lambda>y. I (k y)) ys) = real_of_int (sum_list (map k ys))"
  by (induction ys) (simp_all add: row_sum_def)

text \<open>
  Claim C9.  After \<open>calculate_peak_support\<close> on samples with distinct names, none of them a
  reserved column label, \<open>get_supported_peaks\<close> on any subset of those samples returns one
  boolean per consensus region, true exactly where the sum of the subset's raw indicators
  is not zero.  The \<open>support\<close> column takes no part in it.
\<close>

theorem supported_peaks_mask:
  assumes ok: "calculate_peak_support st smps region_type = (st', Inr ())"
    and dist: "distinct (map name smps)"
    and res: "\<forall>y\<in>set smps. name y \<notin> set [''chrom'', ''start'', ''end'', ''support'']"
    and sub: "set sub \<subseteq> set smps"
  shows "\<exists>s. sites st = Some s
           \<and> get_supported_peaks st' sub
               = Inr (map (\<lambda>x. sum_list (map (\<lambda>y. indicator st region_type y x) sub) \<noteq> 0) s)"
proof -
  from calculate_peak_support_result[OF ok] obtain s bs where
    s: "sites st = Some s"
    and bs: "map (\<lambda>y. bed_files st (peaks_path region_type y)) smps = map Some bs"
    and f: "support st' = Some (set_column (to_dataframe (map (\<lambda>x. (x, counts_of bs x)) s) smps)
                 ''support''
                 (map (support_value (length smps) (length (samples st)))
                    (rows (to_dataframe (map (\<lambda>x. (x, counts_of bs x)) s) smps))))"
    by blast
  define ind where "ind = (\<lambda>x y. indicator st region_type y x)"
  define f0 where "f0 = to_dataframe (map (\<lambda>x. (x, counts_of bs x)) s) smps"
  define g where "g = support_value (length smps) (length (samples st))"
  define f1 where "f1 = set_column f0 ''support'' (map g (rows f0))"
  define coords where "coords = (\<lambda>x::interval. [S (chrom x), I (int (start x)), I (int (stop x))])"
  define row1 where "row1 = (\<lambda>x. (coords x @ map (\<lambda>y. I (ind x y)) smps) @ [g (coords x @ map (\<lambda>y. I (ind x y)) smps)])"
  have f': "support st' = Some f1"
    using f by (simp add: f1_def f0_def g_def)
  have cols0: "columns f0 = [''chrom'', ''start'', ''end''] @ map name smps"
    by (simp add: f0_def to_dataframe_columns)
  have rows0: "rows f0 = map (\<lambda>x. coords x @ map (\<lambda>y. I (ind x y)) smps) s"
    by (simp add: f0_def to_dataframe_def counts_of_indicator[OF bs] coords_def ind_def)
  have notin: "''support'' \<notin> set (columns f0)"
    using res by (auto simp: cols0)
  have cols1: "columns f1 = ([''chrom'', ''start'', ''end''] @ map name smps) @ [''support'']"
    using notin by (simp add: f1_def set_column_def cols0)
  have "rows f1 = map (\<lambda>row. row @ [g row]) (rows f0)"
    using notin by (simp add: f1_def set_column_def map2_same)
  then have rows1: "rows f1 = map row1 s"
    by (simp add: rows0 row1_def)
  have pick1: "pick (columns f1) (row1 x) (name y) = [I (ind x y)]" if y: "y \<in> set sub" for x y
  proof -
    from y sub have ys: "y \<in> set smps" by blast
    with res have nr: "name y \<notin> set [''chrom'', ''start'', ''end'']" and ns: "name y \<noteq> ''support''"
      by auto
    have "pick (columns f1) (row1 x) (name y)
            = pick ([''chrom'', ''start'', ''end''] @ map name smps)
                (coords x @ map (\<lambda>y. I (ind x y)) smps) (name y)
              @ pick [''support''] [g (coords x @ map (\<lambda>y. I (ind x y)) smps)] (name y)"
      unfolding cols1 row1_def by (rule pick_append) (simp add: coords_def)
    also have "pick [''support''] [g (coords x @ map (\<lambda>y. I (ind x y)) smps)] (name y) = []"
      using ns by (simp add: pick_def)
    also have "pick ([''chrom'', ''start'', ''end''] @ map name smps)
                (coords x @ map (\<lambda>y. I (ind x y)) smps) (name y)
               = pick [''chrom'', ''start'', ''end''] (coords x) (name y)
                 @ pick (map name smps) (map (\<lambda>y. I (ind x y)) smps) (name y)"
      by (rule pick_append) (simp add: coords_def)
    also have "pick [''chrom'', ''start'', ''end''] (coords x) (name y) = []"
      using nr by (intro pick_notin)
    also have "pick (map name smps) (map (\<lambda>y. I (ind x y)) smps) (name y) = [I (ind x y)]"
      using dist ys by (rule pick_map_distinct)
    finally show ?thesis by simp
  qed
  have all_in: "list_all (\<lambda>l. l \<in> set (columns f1)) (map name sub)"
    using sub by (auto simp: list_all_iff cols1)
  have sel_row: "concat (map (pick (columns f1) (row1 x)) (map name sub)) = map (\<lambda>y. I (ind x y)) sub" for x
  proof -
    have "\<forall>y\<in>set ys. pick (columns f1) (row1 x) (name y) = [I (ind x y)] \<Longrightarrow>
            concat (map (pick (columns f1) (row1 x)) (map name ys)) = map (\<lambda>y. I (ind x y)) ys" for ys
      by (induction ys) simp_all
    then show ?thesis using pick1 by blast
  qed
  obtain sel where sel: "select_labels f1 (map name sub) = Inr sel"
    and sel_rows: "rows sel = map (\<lambda>x. map (\<lambda>y. I (ind x y)) sub) s"
    using all_in by (simp add: select_labels_def rows1 sel_row[unfolded map_map])
  have "get_supported_peaks st' sub = Inr (map (\<lambda>row. row_sum row \<noteq> 0) (rows sel))"
    by (simp add: get_supported_peaks_def f' sel)
  also have "map (\<lambda>row. row_sum row \<noteq> 0) (rows sel)
               = map (\<lambda>x. sum_list (map (\<lambda>y. ind x y) sub) \<noteq> 0) s"
    by (simp add: sel_rows row_sum_ints)
  finally show ?thesis using s by (simp add: ind_def)
qed


theorem supported_peaks_mask_witness:
  "snd (calculate_peak_support ex_support_state (samples ex_support_state) ''peaks'') = Inr ()
   \<and> distinct (map name (samples ex_support_state))
   \<and> list_all (\<lambda>y. name y \<notin> set [''chrom'', ''start'', ''end'', ''support''])
        (samples ex_support_state)
   \<and> set [mk_sample ''s1'', mk_sample ''s3''] \<subseteq> set (samples ex_support_state)
   \<and> get_supported_peaks
         (fst (calculate_peak_support ex_support_state (samples ex_support_state) ''peaks''))
         [mk_sample ''s1'', mk_sample ''s3'']
       = Inr [True, True, True]"
proof -
  have h: "snd (calculate_peak_support ex_support_state (samples ex_support_state) ''peaks'') = Inr ()"
    by (simp add: support_eval ex_eval)
  have ok: "calculate_peak_support ex_support_state (samples ex_support_state) ''peaks''
        = (fst (calculate_peak_support ex_support_state (samples ex_support_state) ''peaks''), Inr ())"
    using h by (metis prod.collapse)
  have d: "distinct (map name (samples ex_support_state))"
    by (simp add: ex_support_state_def ex_eval)
  have r: "\<forall>y\<in>set (samples ex_support_state). name y \<notin> set [''chrom'', ''start'', ''end'', ''support'']"
    by (simp add: ex_support_state_def ex_eval)
  have s: "set [mk_sample ''s1'', mk_sample ''s3''] \<subseteq> set (samples ex_support_state)"
    by (simp add: ex_support_state_def ex_eval)
  from supported_peaks_mask[OF ok d r s] obtain s0 where
    "sites ex_support_state = Some s0"
    and m: "get_supported_peaks
         (fst (calculate_peak_support ex_support_state (samples ex_support_state) ''peaks''))
         [mk_sample ''s1'', mk_sample ''s3'']
       = Inr (map (\<lambda>x. sum_list (map (\<lambda>y. indicator ex_support_state ''peaks'' y x)
                                    [mk_sample ''s1'', mk_sample ''s3'']) \<noteq> 0) s0)"
    by blast
  then have "s0 = [iv ''chr1'' 100 400, iv ''chr2'' 50 150, iv ''chr3'' 500 700]"
    by (simp add: ex_support_state_def)
  with m have "get_supported_peaks
         (fst (calculate_peak_support ex_support_state (samples ex_support_state) ''peaks''))
         [mk_sample ''s1'', mk_sample ''s3'']
       = Inr [True, True, True]"
    by (simp add: indicator_def peaks_path_def ex_support_state_def ex_eval)
  with h d r s show ?thesis by (simp only: list_all_iff)
qed

text \<open>
  The mask is not a threshold on the \<open>support\<close> column: in the one-sample analysis the
  second region has support 1 and no support from the sample.
\<close>

lemma mask_differs_from_support:
  "get_supported_peaks (fst (calculate_peak_support ex_single_state [mk_sample ''s1''] ''peaks''))
     [mk_sample ''s1''] = Inr [True, False]"
  by (simp add: support_eval ex_eval get_supported_peaks_def select_labels_def pick_def
      row_sum_def)

section \<open>Properties of the Coverage Quantifier\<close>

lemmas coverage_eval = measure_coverage_def sites_str_def build_coverage_def
  count_reads_in_intervals_def fmt_interval_def fmt_region_def str_nat.simps digit_char_def
  parse_key_def nth_err_def py_int_def strip_def is_space_def digit_val_def set_column_def
  to_csv_def raw_coverage_file_def ex_backend_def ex_support_state_def BedTool_def

lemma ex_exists:
  "os_path_exists ex_state = (\<lambda>p. p \<in> set [''s1.bam'', ''s2.bam''])"
  "sites ex_state = None" "stdout ex_state = []" "coverage ex_state = None"
  by (simp_all add: ex_state_def)

lemma split_on_no_sep: "c \<notin> set s \<Longrightarrow> split_on c s = [s]"
  by (induction s) auto

lemma split_on_append: "c \<notin> set a \<Longrightarrow> split_on c (a @ c # b) = a # split_on c b"
  by (induction a) auto

lemma digit_char_mem: "d < 10 \<Longrightarrow> digit_char d \<in> set ''0123456789''"
  unfolding digit_char_def by (rule nth_mem) simp

lemma digit_val_digit_char: "d < 10 \<Longrightarrow> digit_val (digit_char d) = Some d"
proof -
  assume "d < 10"
  then have "d \<in> {0,1,2,3,4,5,6,7,8,9}" by auto
  then show ?thesis
    by (auto simp: digit_val_def digit_char_def upt_rec)
qed

lemma str_nat_digits: "set (str_nat n) \<subseteq> set ''0123456789''"
proof (induction n rule: str_nat.induct)
  case (1 n)
  show ?case
  proof (cases "n < 10")
    case True
    then have "str_nat n = [digit_char n]" by (simp add: str_nat.simps)
    with digit_char_mem[OF True] show ?thesis by simp
  next
    case False
    then have e: "str_nat n = str_nat (n div 10) @ [digit_char (n mod 10)]"
      by (subst str_nat.simps) simp
    have "digit_char (n mod 10) \<in> set ''0123456789''" by (rule digit_char_mem) simp
    with "1.IH"[OF False] show ?thesis by (simp only: e set_append) auto
  qed
qed

lemma str_nat_nonempty: "str_nat n \<noteq> []"
  by (subst str_nat.simps) simp

lemma digits_val_snoc:
  "digits_val acc (ds @ [d]) =
     (case digits_val acc ds of
        None \<Rightarrow> None
      | Some m \<Rightarrow> (case digit_val d of None \<Rightarrow> None | Some v \<Rightarrow> Some (10 * m + v)))"
  by (induction ds arbitrary: acc) (auto split: option.splits)

lemma digits_val_str_nat: "digits_val 0 (str_nat n) = Some n"
proof (induction n rule: str_nat.induct)
  case (1 n)
  show ?case
  proof (cases "n < 10")
    case True
    then have "str_nat n = [digit_char n]" by (simp add: str_nat.simps)
    with digit_val_digit_char[OF True] show ?thesis by simp
  next
    case False
    then have e: "str_nat n = str_nat (n div 10) @ [digit_char (n mod 10)]"
      by (subst str_nat.simps) simp
    have "digit_val (digit_char (n mod 10)) = Some (n mod 10)"
      by (rule digit_val_digit_char) simp
    with "1.IH"[OF False] show ?thesis
      by (simp only: e digits_val_snoc) simp
  qed
qed

lemma strip_id: "\<forall>c\<in>set s. \<not> is_space c \<Longrightarrow> strip s = s"
proof -
  assume a: "\<forall>c\<in>set s. \<not> is_space c"
  have d: "dropWhile is_space xs = xs" if "\<forall>c\<in>set xs. \<not> is_space c" for xs
    using that by (cases xs) simp_all
  from a have "dropWhile is_space s = s" by (rule d)
  moreover from a have "dropWhile is_space (rev s) = rev s" by (intro d) simp
  ultimately show ?thesis by (simp add: strip_def)
qed

lemma digit_not_space: "c \<in> set ''0123456789'' \<Longrightarrow> \<not> is_space c"
  by (auto simp: is_space_def)

lemma py_int_str_nat: "py_int (str_nat n) = Inr (int n)"
proof -
  have "\<forall>c\<in>set (str_nat n). \<not> is_space c"
    using str_nat_digits[of n] digit_not_space by blast
  then have st: "strip (str_nat n) = str_nat n"
    by (rule strip_id)
  obtain c cs where s: "str_nat n = c # cs"
    using str_nat_nonempty[of n] by (cases "str_nat n") auto
  with str_nat_digits[of n] have "c \<in> set ''0123456789''" by auto
  then have c: "c \<noteq> CHR ''-''" "c \<noteq> CHR ''+''" by auto
  have dv: "digits_val 0 (c # cs) = Some n"
    using digits_val_str_nat[of n] by (simp only: s)
  have "py_int (str_nat n) =
          (case c # cs of
             [] \<Rightarrow> Inl ValueError
           | c # cs \<Rightarrow>
               (let (sgn, ds) = (if c = CHR ''-'' then (-1, cs)
                                 else if c = CHR ''+'' then (1, cs) else (1, c # cs))
                in if ds = [] then Inl ValueError
                   else (case digits_val 0 ds of
                           None \<Rightarrow> Inl ValueError
                         | Some n \<Rightarrow> Inr (sgn * int n))))"
    using st unfolding py_int_def s by (simp only:)
  also have "\<dots> = Inr (int n)"
    using c dv by simp
  finally show ?thesis .
qed

lemma str_nat_no_colon: "CHR '':'' \<notin> set (str_nat n)"
  using str_nat_digits[of n] by auto

lemma str_nat_no_dash: "CHR ''-'' \<notin> set (str_nat n)"
  using str_nat_digits[of n] by auto

lemma parse_key_fmt_region:
  assumes "CHR '':'' \<notin> set c"
  shows "parse_key (fmt_region c s e) = Inr (c, str_nat s, str_nat e)"
proof -
  define rest where "rest = str_nat s @ CHR ''-'' # str_nat e"
  have f: "fmt_region c s e = c @ CHR '':'' # rest"
    by (simp add: fmt_region_def rest_def)
  have nc: "CHR '':'' \<notin> set rest"
    using str_nat_no_colon by (simp add: rest_def)
  have "split_on CHR '':'' (c @ CHR '':'' # rest) = c # split_on CHR '':'' rest"
    using assms by (rule split_on_append)
  also have "split_on CHR '':'' rest = [rest]"
    using nc by (rule split_on_no_sep)
  finally have sp: "split_on CHR '':'' (fmt_region c s e) = [c, rest]"
    by (simp add: f)
  have "split_on CHR ''-'' rest = str_nat s # split_on CHR ''-'' (str_nat e)"
    unfolding rest_def using str_nat_no_dash by (rule split_on_append)
  also have "split_on CHR ''-'' (str_nat e) = [str_nat e]"
    using str_nat_no_dash by (rule split_on_no_sep)
  finally have sd: "split_on CHR ''-'' rest = [str_nat s, str_nat e]" .
  show ?thesis
    by (simp add: parse_key_def sp sd nth_err_def)
qed

lemma fmt_interval_inj:
  assumes "CHR '':'' \<notin> set (chrom x)" and "CHR '':'' \<notin> set (chrom y)"
    and "fmt_interval x = fmt_interval y"
  shows "x = (y::interval)"
proof -
  from assms have "parse_key (fmt_region (chrom x) (start x) (stop x))
                     = parse_key (fmt_region (chrom y) (start y) (stop y))"
    by (simp add: fmt_interval_def)
  with assms(1,2) have c: "chrom x = chrom y" and s: "str_nat (start x) = str_nat (start y)"
    and e: "str_nat (stop x) = str_nat (stop y)"
    by (simp_all add: parse_key_fmt_region)
  from s have "py_int (str_nat (start x)) = py_int (str_nat (start y))" by simp
  then have s': "start x = start y" by (simp add: py_int_str_nat)
  from e have "py_int (str_nat (stop x)) = py_int (str_nat (stop y))" by simp
  then have e': "stop x = stop y" by (simp add: py_int_str_nat)
  from c s' e' show ?thesis by simp
qed

lemma map_err_all: "\<forall>x\<in>set xs. f x = Inr (g x) \<Longrightarrow> map_err f xs = Inr (map g xs)"
  by (induction xs) simp_all

lemma remdups_map_inj: "inj_on f (set xs) \<Longrightarrow> remdups (map f xs) = map f (remdups xs)"
proof (induction xs)
  case Nil
  then show ?case by simp
next
  case (Cons x xs)
  then have "inj_on f (set xs)" and "f x \<in> f ` set xs \<longleftrightarrow> x \<in> set xs"
    by (auto simp: inj_on_def)
  with Cons.IH show ?case by simp
qed

lemma remdups_repeated:
  "distinct K \<Longrightarrow> remdups (concat (map (\<lambda>y. K) ys)) = (if ys = [] then [] else K)"
proof (induction ys)
  case Nil
  then show ?case by simp
next
  case (Cons y ys)
  show ?case
  proof (cases "ys = []")
    case True
    with Cons.prems show ?thesis by (simp add: distinct_remdups_id)
  next
    case False
    define R where "R = concat (map (\<lambda>y. K) ys)"
    from False have sR: "set R = set K" by (cases ys) (auto simp: R_def)
    then have e: "set K \<subseteq> set R" by simp
    from Cons False have r: "remdups R = K" by (simp add: R_def)
    have "remdups (K @ R) = remdups R"
      using e by (rule remdups_append)
    then have "remdups (K @ R) = K" by (simp only: r)
    then show ?thesis by (simp add: R_def)
  qed
qed

lemma map_err_map_all:
  "\<forall>x\<in>set xs. f (h x) = Inr (g x) \<Longrightarrow> map_err f (map h xs) = Inr (map g xs)"
  by (induction xs) simp_all

lemma build_coverage_ok:
  assumes good: "\<forall>x\<in>set s. CHR '':'' \<notin> set (chrom x)"
  shows "build_coverage bk kept (map fmt_interval s)
           = Inr (with_coords (count_frame bk kept s) (kept_sites kept s))"
proof -
  define keys where "keys = map fmt_interval s"
  define s' where "s' = kept_sites kept s"
  define dicts where "dicts = map (\<lambda>y. count_reads_in_intervals bk (filtered y) keys) kept"
  define idx where "idx = remdups (concat (map (map fst) dicts))"
  have inj: "inj_on fmt_interval (set s)"
    using good by (auto simp: inj_on_def intro: fmt_interval_inj)
  have rk: "remdups keys = map fmt_interval (remdups s)"
    unfolding keys_def using inj by (rule remdups_map_inj)
  have "map (map fst) dicts = map (\<lambda>y. remdups keys) kept"
    by (simp add: dicts_def count_reads_in_intervals_def comp_def)
  then have "idx = (if kept = [] then [] else remdups keys)"
    unfolding idx_def by (simp add: remdups_repeated)
  then have idx: "idx = map fmt_interval s'"
    by (simp add: rk s'_def kept_sites_def)
  have s'_sub: "set s' \<subseteq> set s"
    by (auto simp: s'_def kept_sites_def)
  have s'_keys: "kept \<noteq> [] \<Longrightarrow> fmt_interval x \<in> set (remdups keys)" if "x \<in> set s'" for x
    using that by (auto simp: s'_def kept_sites_def rk)
  have cell: "map (\<lambda>d. case map_of d (fmt_interval x) of None \<Rightarrow> NaN | Some n \<Rightarrow> I n) dicts
                = map (\<lambda>y. I (int (count_reads bk (filtered y) (fmt_interval x)))) kept"
    if x: "x \<in> set s'" for x
  proof (cases "kept = []")
    case True
    then show ?thesis by (simp add: dicts_def)
  next
    case False
    from s'_keys[OF x False] have
      "map_of (map (\<lambda>r. (r, int (count_reads bk bam r))) (remdups keys)) (fmt_interval x)
         = Some (int (count_reads bk bam (fmt_interval x)))" for bam
      by (simp add: map_of_map_restrict)
    then show ?thesis
      by (simp add: dicts_def count_reads_in_intervals_def)
  qed
  have rows: "map (\<lambda>k. map (\<lambda>d. case map_of d k of None \<Rightarrow> NaN | Some n \<Rightarrow> I n) dicts) idx
                = rows (count_frame bk kept s)"
    unfolding idx using cell by (simp add: count_frame_def s'_def[symmetric])
  have cov: "\<lparr>columns = map name kept, index = map S idx,
              rows = map (\<lambda>k. map (\<lambda>d. case map_of d k of None \<Rightarrow> NaN | Some n \<Rightarrow> I n) dicts) idx\<rparr>
             = count_frame bk kept s"
    unfolding rows by (simp add: count_frame_def idx s'_def)
  have parsed: "map_err parse_key idx
                  = Inr (map (\<lambda>x. (chrom x, str_nat (start x), str_nat (stop x))) s')"
    unfolding idx
  proof (rule map_err_map_all, rule ballI)
    fix x assume "x \<in> set s'"
    with s'_sub good have "CHR '':'' \<notin> set (chrom x)" by blast
    then show "parse_key (fmt_interval x) = Inr (chrom x, str_nat (start x), str_nat (stop x))"
      unfolding fmt_interval_def by (rule parse_key_fmt_region)
  qed
  have starts: "map_err (\<lambda>x. py_int (fst (snd x)))
                   (map (\<lambda>x. (chrom x, str_nat (start x), str_nat (stop x))) s')
                 = Inr (map (\<lambda>x. int (start x)) s')"
    by (rule map_err_map_all) (simp add: py_int_str_nat)
  have ends: "map_err (\<lambda>x. py_int (snd (snd x)))
                   (map (\<lambda>x. (chrom x, str_nat (start x), str_nat (stop x))) s')
                 = Inr (map (\<lambda>x. int (stop x)) s')"
    by (rule map_err_map_all) (simp add: py_int_str_nat)
  have "build_coverage bk kept keys =
      (let cov = \<lparr>columns = map name kept, index = map S idx,
              rows = map (\<lambda>k. map (\<lambda>d. case map_of d k of None \<Rightarrow> NaN | Some n \<Rightarrow> I n) dicts) idx\<rparr>
      in case map_err parse_key idx of
           Inl e \<Rightarrow> Inl e
         | Inr ints \<Rightarrow>
             (let cov1 = set_column cov ''chrom'' (map (\<lambda>x. S (fst x)) ints) in
              case map_err (\<lambda>x. py_int (fst (snd x))) ints of
                Inl e \<Rightarrow> Inl e
              | Inr starts \<Rightarrow>
                  (let cov2 = set_column cov1 ''start'' (map I starts) in
                   case map_err (\<lambda>x. py_int (snd (snd x))) ints of
                     Inl e \<Rightarrow> Inl e
                   | Inr ends \<Rightarrow> Inr (set_column cov2 ''end'' (map I ends)))))"
    unfolding build_coverage_def dicts_def[symmetric] Let_def idx_def[symmetric] ..
  also have "\<dots> = Inr (with_coords (count_frame bk kept s) s')"
    unfolding cov parsed by (simp add: starts ends with_coords_def comp_def)
  finally show ?thesis by (simp add: keys_def s'_def)
qed

lemma kept_filter: "filter (\<lambda>y. y \<notin> set (filter (\<lambda>y. \<not> P y) xs)) xs = filter P xs"
  by (rule filter_cong) auto

lemma map2_maps: "map2 h (map f xs) (map g xs) = map (\<lambda>x. h (f x) (g x)) xs"
  by (induction xs) simp_all

lemma with_coords_explicit:
  assumes "\<forall>y\<in>set kept. name y \<notin> set [''chrom'', ''start'', ''end'']"
  shows "with_coords (count_frame bk kept s) s'
           = \<lparr>columns = map name kept @ [''chrom'', ''start'', ''end''],
              index = index (count_frame bk kept s),
              rows = map2 (\<lambda>row x. row @ [S (chrom x), I (int (start x)), I (int (stop x))])
                       (rows (count_frame bk kept s)) s'\<rparr>"
proof -
  have n: "''chrom'' \<notin> name ` set kept" "''start'' \<notin> name ` set kept" "''end'' \<notin> name ` set kept"
    using assms by auto
  have z: "map2 (\<lambda>row v. row @ [v]) (map2 (\<lambda>row v. row @ [v]) (map2 (\<lambda>row v. row @ [v]) rs (map f1 xs)) (map f2 xs)) (map f3 xs)
     = map2 (\<lambda>row x. row @ [f1 x, f2 x, f3 x]) rs xs" for rs :: "cell list list" and xs :: bed and f1 f2 f3
  proof (induction rs arbitrary: xs)
    case Nil
    then show ?case by simp
  next
    case (Cons r rs)
    then show ?case by (cases xs) simp_all
  qed
  show ?thesis
    using n by (simp add: with_coords_def set_column_def count_frame_def z)
qed

lemma map2_map_left: "map2 h (map f xs) xs = map (\<lambda>x. h (f x) x) xs"
  by (induction xs) simp_all

lemma coverage_frame_explicit:
  assumes "\<forall>y\<in>set kept. name y \<notin> set [''chrom'', ''start'', ''end'']"
  shows "with_coords (count_frame bk kept s) (kept_sites kept s)
           = \<lparr>columns = map name kept @ [''chrom'', ''start'', ''end''],
              index = map (\<lambda>x. S (fmt_interval x)) (kept_sites kept s),
              rows = map (\<lambda>x. map (\<lambda>y. I (int (count_reads bk (filtered y) (fmt_interval x)))) kept
                              @ [S (chrom x), I (int (start x)), I (int (stop x))])
                       (kept_sites kept s)\<rparr>"
  unfolding with_coords_explicit[OF assms] by (simp add: count_frame_def map2_map_left)

text \<open>
  The default mode.  On an analysis whose consensus set has no colon in a contig name,
  \<open>measure_coverage\<close> returns: the samples without an alignment file are printed in one
  warning and dropped, the matrix is built from the counts of the samples that are left,
  and it is stored and written to the raw-coverage file.  When no sample is left the call
  still returns, with a matrix without rows.  When no sample is named like a coordinate
  column, the matrix has one count column per remaining sample, followed by \<open>chrom\<close>,
  \<open>start\<close> and \<open>end\<close>.
\<close>

theorem default_coverage_drops_missing:
  fixes st :: state and smps :: "sample list" and missing kept :: "sample list"
  assumes s: "sites st = Some s"
    and good: "\<forall>x\<in>set s. CHR '':'' \<notin> set (chrom x)"
  defines "missing \<equiv> filter (\<lambda>y. \<not> os_path_exists st (filtered y)) smps"
    and "kept \<equiv> filter (\<lambda>y. os_path_exists st (filtered y)) smps"
  shows "\<exists>st' cov.
           measure_coverage bk st smps None None = (st', Inr (Some cov))
           \<and> cov = with_coords (count_frame bk kept s) (kept_sites kept s)
           \<and> coverage st' = Some cov
           \<and> csv_files st' (raw_coverage_file st) = Some cov
           \<and> stdout st' = (if missing = [] then stdout st else MissingBam missing # stdout st)
           \<and> ((\<forall>y\<in>set smps. name y \<notin> set [''chrom'', ''start'', ''end'']) \<longrightarrow>
                cov = \<lparr>columns = map name kept @ [''chrom'', ''start'', ''end''],
                       index = map (\<lambda>x. S (fmt_interval x)) (kept_sites kept s),
                       rows = map (\<lambda>x. map (\<lambda>y. I (int (count_reads bk (filtered y)
                                                               (fmt_interval x)))) kept
                                       @ [S (chrom x), I (int (start x)), I (int (stop x))])
                                (kept_sites kept s)\<rparr>)"
proof -
  define st1 where "st1 = (if length missing > 0 then py_print st (MissingBam missing) else st)"
  define cov where "cov = with_coords (count_frame bk kept s) (kept_sites kept s)"
  have k: "(if length missing > 0 then filter (\<lambda>y. y \<notin> set missing) smps else smps) = kept"
  proof (cases "missing = []")
    case True
    then have "\<forall>y\<in>set smps. os_path_exists st (filtered y)"
      by (auto simp: missing_def filter_empty_conv)
    with True show ?thesis by (simp add: kept_def)
  next
    case False
    then have "0 < length missing" by simp
    moreover have "filter (\<lambda>y. y \<notin> set missing) smps = kept"
      unfolding missing_def kept_def by (rule kept_filter)
    ultimately show ?thesis by (simp only: if_True)
  qed
  have s1: "sites st1 = Some s" and r1: "raw_coverage_file st1 = raw_coverage_file st"
    and o1: "stdout st1 = (if missing = [] then stdout st else MissingBam missing # stdout st)"
    by (simp_all add: st1_def s raw_coverage_file_def)
  have bc: "build_coverage bk kept (map fmt_interval s) = Inr cov"
    unfolding cov_def using good by (rule build_coverage_ok)
  have "measure_coverage bk st smps None None
          = (to_csv (st1\<lparr>coverage := Some cov\<rparr>) (raw_coverage_file st1) cov, Inr (Some cov))"
    unfolding measure_coverage_def missing_def[symmetric] Let_def st1_def[symmetric] k
    by (simp add: s1 sites_str_def bc)
  moreover have "coverage (to_csv (st1\<lparr>coverage := Some cov\<rparr>) (raw_coverage_file st1) cov) = Some cov"
    by (simp add: to_csv_def)
  moreover have "csv_files (to_csv (st1\<lparr>coverage := Some cov\<rparr>) (raw_coverage_file st1) cov)
                   (raw_coverage_file st) = Some cov"
    by (simp add: to_csv_def r1)
  moreover have "stdout (to_csv (st1\<lparr>coverage := Some cov\<rparr>) (raw_coverage_file st1) cov)
                   = (if missing = [] then stdout st else MissingBam missing # stdout st)"
    by (simp add: to_csv_def o1)
  moreover have "(\<forall>y\<in>set smps. name y \<notin> set [''chrom'', ''start'', ''end'']) \<longrightarrow>
                cov = \<lparr>columns = map name kept @ [''chrom'', ''start'', ''end''],
                       index = map (\<lambda>x. S (fmt_interval x)) (kept_sites kept s),
                       rows = map (\<lambda>x. map (\<lambda>y. I (int (count_reads bk (filtered y)
                                                               (fmt_interval x)))) kept
                                       @ [S (chrom x), I (int (start x)), I (int (stop x))])
                                (kept_sites kept s)\<rparr>"
  proof
    assume "\<forall>y\<in>set smps. name y \<notin> set [''chrom'', ''start'', ''end'']"
    then have "\<forall>y\<in>set kept. name y \<notin> set [''chrom'', ''start'', ''end'']"
      by (simp add: kept_def)
    then show "cov = \<lparr>columns = map name kept @ [''chrom'', ''start'', ''end''],
                       index = map (\<lambda>x. S (fmt_interval x)) (kept_sites kept s),
                       rows = map (\<lambda>x. map (\<lambda>y. I (int (count_reads bk (filtered y)
                                                               (fmt_interval x)))) kept
                                       @ [S (chrom x), I (int (start x)), I (int (stop x))])
                                (kept_sites kept s)\<rparr>"
      unfolding cov_def by (rule coverage_frame_explicit)
  qed
  ultimately show ?thesis
    unfolding cov_def by blast
qed

text \<open>The four example samples, two of them without an alignment file.\<close>

theorem default_coverage_drops_missing_witness:
  "sites ex_support_state = Some [iv ''chr1'' 100 400, iv ''chr2'' 50 150, iv ''chr3'' 500 700]
   \<and> list_all (\<lambda>x. CHR '':'' \<notin> set (chrom x))
        [iv ''chr1'' 100 400, iv ''chr2'' 50 150, iv ''chr3'' 500 700]
   \<and> list_all (\<lambda>y. name y \<notin> set [''chrom'', ''start'', ''end'']) (samples ex_support_state)
   \<and> (\<exists>st'. measure_coverage ex_backend ex_support_state (samples ex_support_state) None None
                = (st', Inr (Some
                     \<lparr>columns = [''s1'', ''s2'', ''chrom'', ''start'', ''end''],
                      index = [S ''chr1:100-400'', S ''chr2:50-150'', S ''chr3:500-700''],
                      rows = [[I 10, I 0, S ''chr1'', I 100, I 400],
                              [I 0, I 0, S ''chr2'', I 50, I 150],
                              [I 0, I 0, S ''chr3'', I 500, I 700]]\<rparr>))
          \<and> stdout st' = [MissingBam [mk_sample ''s3'', mk_sample ''s4'']])"
proof -
  have s: "sites ex_support_state
             = Some [iv ''chr1'' 100 400, iv ''chr2'' 50 150, iv ''chr3'' 500 700]"
    by (simp add: ex_support_state_def)
  have g: "\<forall>x\<in>set [iv ''chr1'' 100 400, iv ''chr2'' 50 150, iv ''chr3'' 500 700].
             CHR '':'' \<notin> set (chrom x)"
    by (simp add: iv_def)
  have n: "\<forall>y\<in>set (samples ex_support_state). name y \<notin> set [''chrom'', ''start'', ''end'']"
    by (simp add: ex_support_state_def ex_eval)
  have v: "snd (measure_coverage ex_backend ex_support_state (samples ex_support_state) None None)
     = Inr (Some \<lparr>columns = [''s1'', ''s2'', ''chrom'', ''start'', ''end''],
                  index = [S ''chr1:100-400'', S ''chr2:50-150'', S ''chr3:500-700''],
                  rows = [[I 10, I 0, S ''chr1'', I 100, I 400],
                          [I 0, I 0, S ''chr2'', I 50, I 150],
                          [I 0, I 0, S ''chr3'', I 500, I 700]]\<rparr>)"
    by (simp add: coverage_eval ex_eval ex_exists upt_rec)
  have m: "filter (\<lambda>y. \<not> os_path_exists ex_support_state (filtered y)) (samples ex_support_state)
            = [mk_sample ''s3'', mk_sample ''s4'']"
    by (simp add: ex_support_state_def ex_eval ex_exists)
  have o: "stdout ex_support_state = []"
    by (simp add: ex_support_state_def ex_exists)
  from default_coverage_drops_missing[OF s g, of ex_backend "samples ex_support_state"]
  obtain st' cov where
    r: "measure_coverage ex_backend ex_support_state (samples ex_support_state) None None
          = (st', Inr (Some cov))"
    and out: "stdout st' =
       (if filter (\<lambda>y. \<not> os_path_exists ex_support_state (filtered y)) (samples ex_support_state) = []
        then stdout ex_support_state
        else MissingBam (filter (\<lambda>y. \<not> os_path_exists ex_support_state (filtered y))
                           (samples ex_support_state)) # stdout ex_support_state)"
    by blast
  from out have out': "stdout st' = [MissingBam [mk_sample ''s3'', mk_sample ''s4'']]"
    by (simp only: m o) simp
  from r v have "measure_coverage ex_backend ex_support_state (samples ex_support_state) None None
                = (st', Inr (Some
                     \<lparr>columns = [''s1'', ''s2'', ''chrom'', ''start'', ''end''],
                      index = [S ''chr1:100-400'', S ''chr2:50-150'', S ''chr3:500-700''],
                      rows = [[I 10, I 0, S ''chr1'', I 100, I 400],
                              [I 0, I 0, S ''chr2'', I 50, I 150],
                              [I 0, I 0, S ''chr3'', I 500, I 700]]\<rparr>))"
    by simp
  moreover from g have "list_all (\<lambda>x. CHR '':'' \<notin> set (chrom x))
        [iv ''chr1'' 100 400, iv ''chr2'' 50 150, iv ''chr3'' 500 700]"
    by (simp only: list_all_iff)
  moreover from n have "list_all (\<lambda>y. name y \<notin> set [''chrom'', ''start'', ''end''])
        (samples ex_support_state)"
    by (simp only: list_all_iff)
  ultimately show ?thesis using out' s by blast
qed

text \<open>
  Claim C8.  Neither \<open>s3\<close> nor \<open>s4\<close> has an alignment file.  The call does not fail: it
  returns, and stores as the canonical coverage, a matrix that has the coordinate columns
  only.
\<close>

theorem all_samples_missing_returns:
  "\<not> os_path_exists ex_support_state (filtered (mk_sample ''s3''))
   \<and> \<not> os_path_exists ex_support_state (filtered (mk_sample ''s4''))
   \<and> snd (measure_coverage ex_backend ex_support_state [mk_sample ''s3'', mk_sample ''s4'']
            None None)
       = Inr (Some \<lparr>columns = [''chrom'', ''start'', ''end''], index = [], rows = []\<rparr>)
   \<and> coverage (fst (measure_coverage ex_backend ex_support_state
                      [mk_sample ''s3'', mk_sample ''s4''] None None))
       = Some \<lparr>columns = [''chrom'', ''start'', ''end''], index = [], rows = []\<rparr>"
  by (simp add: coverage_eval ex_eval ex_exists upt_rec)

text \<open>
  Every call of \<open>measure_coverage\<close> with explicit sites or an explicit output file raises,
  whatever the arguments: the local \<open>default\<close> is unbound when \<open>if default:\<close> reads it.
  The canonical matrix and the files are as before the call.
\<close>

lemma explicit_mode_raises:
  assumes "sites_a \<noteq> None \<or> output_file \<noteq> None"
  shows "\<exists>e. snd (measure_coverage bk st smps sites_a output_file) = Inl e"
    and "coverage (fst (measure_coverage bk st smps sites_a output_file)) = coverage st"
    and "csv_files (fst (measure_coverage bk st smps sites_a output_file)) = csv_files st"
  using assms
  by (auto simp: measure_coverage_def Let_def py_print_def split: sum.splits option.splits)


text \<open>
  Claim C1.  With an explicit table of regions, and likewise with an explicit output file,
  the call ends in \<open>UnboundLocalError\<close> and returns no matrix; with neither, the matrix is
  returned and stored.
\<close>

theorem explicit_coverage_is_not_returned:
  "snd (measure_coverage ex_backend ex_support_state (samples ex_support_state)
          (Some (SitesFrame [(''chr1'', 100, 400)])) None) = Inl UnboundLocalError
   \<and> snd (measure_coverage ex_backend ex_support_state (samples ex_support_state)
          None (Some ''out.csv'')) = Inl UnboundLocalError
   \<and> snd (measure_coverage ex_backend ex_support_state (samples ex_support_state) None None)
     = Inr (Some \<lparr>columns = [''s1'', ''s2'', ''chrom'', ''start'', ''end''],
                  index = [S ''chr1:100-400'', S ''chr2:50-150'', S ''chr3:500-700''],
                  rows = [[I 10, I 0, S ''chr1'', I 100, I 400],
                          [I 0, I 0, S ''chr2'', I 50, I 150],
                          [I 0, I 0, S ''chr3'', I 500, I 700]]\<rparr>)"
  by (simp add: coverage_eval ex_eval ex_exists upt_rec)

section \<open>Properties of the Annotator\<close>

lemmas annotate_eval = annotate_def on_annotated_def merge_annotation_def pd_merge_left_def
  select_labels_def pick_def row_stat_def col_stat1_def col_stat2_def column_def set_column_def
  pair_indexes_def to_csv_def coord_keys_def annotated_file_def
  ex_cov_def ex_genes_def ex_genes_dup_def ex_regions_def ex_states_def ex_support_def
  ex_annotate_state_def

lemma ex_backend_fields:
  "row_mean ex_backend = (\<lambda>r. NaN)" "row_var ex_backend = (\<lambda>r. NaN)"
  "row_max ex_backend = (\<lambda>r. NaN)" "row_min ex_backend = (\<lambda>r. NaN)"
  "np_sqrt ex_backend = (\<lambda>x. x)" "np_divide ex_backend = (\<lambda>x y. NaN)"
  "np_subtract ex_backend = (\<lambda>x y. NaN)" "np_square ex_backend = (\<lambda>x. x)"
  "normalize_quantiles_r ex_backend = (\<lambda>m. m)" "cqn ex_backend = (\<lambda>m gc len. m)"
  "nucleotide_content ex_backend = (\<lambda>b. map (\<lambda>x. (NaN, I (int (stop x - start x)))) b)"
  by (simp_all add: ex_backend_def)

lemma on_annotated_coverage:
  "on_annotated f s = (s', r) \<Longrightarrow> coverage s' = coverage s"
  by (auto simp: on_annotated_def split: option.splits sum.splits)

lemma run_all_coverage:
  assumes "\<forall>f\<in>set fs. \<forall>s s' r. f s = (s', r) \<longrightarrow> coverage s' = coverage s"
    and "run_all fs s = (s', r)"
  shows "coverage s' = coverage s"
  using assms
proof (induction fs arbitrary: s)
  case Nil
  then show ?case by simp
next
  case (Cons f fs)
  obtain s1 r1 where f: "f s = (s1, r1)" by (cases "f s") blast
  with Cons.prems(1) have c1: "coverage s1 = coverage s" by simp
  show ?case
  proof (cases r1)
    case (Inl e)
    with f Cons.prems(2) have "s' = s1" by simp
    with c1 show ?thesis by simp
  next
    case (Inr u)
    with f Cons.prems(2) have "run_all fs s1 = (s', r)" by simp
    with Cons.IH[of s1] Cons.prems(1) have "coverage s' = coverage s1" by simp
    with c1 show ?thesis by simp
  qed
qed

lemma run_all_snoc:
  "run_all (fs @ [g]) s = (s', Inr u) \<Longrightarrow> \<exists>s1. run_all fs s = (s1, Inr ()) \<and> g s1 = (s', Inr u)"
proof (induction fs arbitrary: s)
  case Nil
  then show ?case by (cases "g s") (auto split: sum.splits)
next
  case (Cons f fs)
  obtain s1 r1 where f: "f s = (s1, r1)" by (cases "f s") blast
  show ?case
  proof (cases r1)
    case (Inl e)
    with f Cons.prems show ?thesis by simp
  next
    case (Inr v)
    with f Cons.prems have "run_all (fs @ [g]) s1 = (s', Inr u)" by simp
    from Cons.IH[OF this] f Inr show ?thesis by simp
  qed
qed

lemma pair_indexes_ok:
  assumes "pair_indexes s = (s', Inr u)"
  shows "\<exists>c a. coverage s = Some c \<and> coverage_annotated s = Some a
           \<and> length (rows a) = length (rows c)
           \<and> coverage s' = Some c \<and> coverage_annotated s' = Some (a\<lparr>index := index c\<rparr>)
           \<and> csv_files s' (annotated_file s) = Some (a\<lparr>index := index c\<rparr>)"
  using assms
  by (auto simp: pair_indexes_def Let_def to_csv_def split: option.splits if_splits)

text \<open>
  Claim C4.  When \<open>annotate\<close> returns, the annotated matrix it stored and wrote has as
  many rows as the coverage matrix, which it left as it was; in every other case it raised.
\<close>

theorem annotate_keeps_row_count:
  assumes "annotate bk st smps quant_matrix = (st', Inr ())"
  shows "\<exists>c a. coverage st = Some c \<and> coverage st' = Some c
           \<and> coverage_annotated st' = Some a
           \<and> csv_files st' (annotated_file st) = Some a
           \<and> length (rows a) = length (rows c)"
proof -
  define names where "names = map name smps"
  define stmts where "stmts =
     [\<lambda>s. on_annotated (merge_annotation (region_annotation s)
                         (coord_keys @ [''genomic_region''])) s,
      \<lambda>s. on_annotated (merge_annotation (chrom_state_annotation s)
                         (coord_keys @ [''chromatin_state''])) s,
      \<lambda>s. on_annotated (merge_annotation (support s)
                         (coord_keys @ [''support''])) s,
      on_annotated (row_stat names ''mean'' (row_mean bk)),
      on_annotated (row_stat names ''variance'' (row_var bk)),
      on_annotated (col_stat1 ''variance'' ''std_deviation'' (np_sqrt bk)),
      on_annotated (col_stat2 ''variance'' ''mean'' ''dispersion'' (np_divide bk)),
      on_annotated (col_stat2 ''std_deviation'' ''mean'' ''qv2''
                    (\<lambda>x y. np_square bk (np_divide bk x y))),
      on_annotated
                    (\<lambda>a. case select_labels a names of
                            Inl e \<Rightarrow> Inl e
                          | Inr sel \<Rightarrow>
                              Inr (set_column a ''amplitude''
                                     (map (\<lambda>row. np_subtract bk (row_max bk row) (row_min bk row))
                                        (rows sel))))]"
  have pres: "\<forall>f\<in>set stmts. \<forall>s s' r. f s = (s', r) \<longrightarrow> coverage s' = coverage s"
    by (auto simp: stmts_def dest: on_annotated_coverage)
  from assms obtain a1 where
    run: "run_all (stmts @ [pair_indexes]) (st\<lparr>coverage_annotated := Some a1\<rparr>) = (st', Inr ())"
    by (auto simp: annotate_def Let_def stmts_def names_def split: sum.splits option.splits)
  from run_all_snoc[OF run] obtain s1 where
    r1: "run_all stmts (st\<lparr>coverage_annotated := Some a1\<rparr>) = (s1, Inr ())"
    and p: "pair_indexes s1 = (st', Inr ())"
    by blast
  from run_all_coverage[OF pres r1] have c1: "coverage s1 = coverage st" by simp
  have af: "annotated_file s1 = annotated_file st"
  proof -
    have "\<forall>f\<in>set stmts. \<forall>s s' r. f s = (s', r) \<longrightarrow> annotated_file s' = annotated_file s"
      by (auto simp: stmts_def on_annotated_def annotated_file_def split: option.splits sum.splits)
    then have "run_all fs s = (s', r) \<Longrightarrow> set fs \<subseteq> set stmts \<Longrightarrow> annotated_file s' = annotated_file s"
      for fs s s' r
    proof (induction fs arbitrary: s)
      case Nil
      then show ?case by simp
    next
      case (Cons f fs)
      obtain s2 r2 where f: "f s = (s2, r2)" by (cases "f s") blast
      with Cons.prems have a2: "annotated_file s2 = annotated_file s" by auto
      show ?case
      proof (cases r2)
        case (Inl e)
        with f Cons.prems have "s' = s2" by simp
        with a2 show ?thesis by simp
      next
        case (Inr u)
        with f Cons.prems have "run_all fs s2 = (s', r)" by simp
        with Cons.IH[of s2] Cons.prems have "annotated_file s' = annotated_file s2" by simp
        with a2 show ?thesis by simp
      qed
    qed
    from this[OF r1] show ?thesis by (simp add: annotated_file_def)
  qed
  from pair_indexes_ok[OF p] c1 af show ?thesis by auto
qed


theorem annotate_keeps_row_count_witness:
  "snd (annotate ex_backend ex_annotate_state [mk_sample ''s1'', mk_sample ''s2''] None) = Inr ()
   \<and> (\<exists>c a. coverage ex_annotate_state = Some c
          \<and> coverage (fst (annotate ex_backend ex_annotate_state
                              [mk_sample ''s1'', mk_sample ''s2''] None)) = Some c
          \<and> coverage_annotated (fst (annotate ex_backend ex_annotate_state
                                        [mk_sample ''s1'', mk_sample ''s2''] None)) = Some a
          \<and> csv_files (fst (annotate ex_backend ex_annotate_state
                               [mk_sample ''s1'', mk_sample ''s2''] None))
                (annotated_file ex_annotate_state) = Some a
          \<and> length (rows a) = length (rows c))"
proof -
  have h: "snd (annotate ex_backend ex_annotate_state [mk_sample ''s1'', mk_sample ''s2''] None)
             = Inr ()"
    by (simp add: annotate_eval ex_backend_fields ex_eval upt_rec)
  have "annotate ex_backend ex_annotate_state [mk_sample ''s1'', mk_sample ''s2''] None
        = (fst (annotate ex_backend ex_annotate_state [mk_sample ''s1'', mk_sample ''s2''] None),
           Inr ())"
    using h by (metis prod.collapse)
  from annotate_keeps_row_count[OF this] h show ?thesis by blast
qed

text \<open>
  A gene table that lists the first region twice makes the left join yield three rows for
  the two of the coverage matrix, and the assertion raises.
\<close>

lemma annotate_duplicated_key_raises:
  "snd (annotate ex_backend (ex_annotate_state\<lparr>gene_annotation := Some ex_genes_dup\<rparr>)
          [mk_sample ''s1'', mk_sample ''s2''] None) = Inl AssertionError"
  by (simp add: annotate_eval ex_backend_fields ex_eval upt_rec)

section \<open>Properties of the Normalizer\<close>

lemmas normalize_eval = normalize_gc_content_def normalize_coverage_quantiles_def
  get_peak_gccontent_length_def gc_correct_def select_labels_def pick_def reframe_def
  df_join_def ix_rows_def column_def to_csv_def coverage_qnorm_file_def
  gccontent_length_file_def coverage_gc_corrected_file_def fmt_interval_def fmt_region_def
  str_nat.simps digit_char_def ex_cov_def ex_coverage_state_def

lemma ex_unset:
  "nuc ex_state = None" "coverage_qnorm ex_state = None" "coverage_gc_corrected ex_state = None"
  "support ex_state = None" "coverage_annotated ex_state = None"
  by (simp_all add: ex_state_def)

text \<open>
  With the covariates present and the quantile-normalised matrix absent the call raises,
  whatever the backends and the samples.
\<close>

lemma gc_content_without_qnorm_raises:
  assumes "nuc st \<noteq> None" and "coverage_qnorm st = None"
  shows "normalize_gc_content bk st smps = (st, Inl AttributeError)"
proof -
  from assms(1) obtain n where n: "nuc st = Some n" by blast
  have "normalize_gc_content bk st smps = gc_correct bk st smps"
    by (simp add: normalize_gc_content_def n)
  also have "\<dots> = (st, Inl AttributeError)"
    by (simp add: gc_correct_def assms(2))
  finally show ?thesis .
qed

text \<open>
  Claim C6.  On an analysis with neither the covariates nor the quantile-normalised matrix,
  \<open>normalize_gc_content\<close> computes both and returns.  Once \<open>get_peak_gccontent_length\<close>
  has stored the covariates, the quantile-normalised matrix is still missing, both guards
  (which test \<open>nuc\<close>) are passed over, and reading \<open>self.coverage_qnorm\<close> raises
  \<open>AttributeError\<close>.
\<close>

theorem gc_content_guard_tests_nuc_only:
  "nuc ex_coverage_state = None \<and> coverage_qnorm ex_coverage_state = None
   \<and> snd (normalize_gc_content ex_backend ex_coverage_state
            [mk_sample ''s1'', mk_sample ''s2'']) = Inr ()
   \<and> snd (get_peak_gccontent_length ex_backend ex_coverage_state None) = Inr ()
   \<and> nuc (fst (get_peak_gccontent_length ex_backend ex_coverage_state None))
       = Some \<lparr>columns = [''gc_content'', ''length''],
                index = [S ''chr1:100-400'', S ''chr2:50-150''],
                rows = [[NaN, I 300], [NaN, I 100]]\<rparr>
   \<and> coverage_qnorm (fst (get_peak_gccontent_length ex_backend ex_coverage_state None)) = None
   \<and> snd (normalize_gc_content ex_backend
            (fst (get_peak_gccontent_length ex_backend ex_coverage_state None))
            [mk_sample ''s1'', mk_sample ''s2'']) = Inl AttributeError"
  by (simp add: normalize_eval ex_backend_fields ex_eval ex_exists ex_unset)

text \<open>
  Claim C7.  The dispatch entry point called with the method \<open>total\<close> returns the very
  matrix the total-count strategy returns on the same input.
\<close>

theorem dispatch_total_is_pass_through:
  "normalize bk gc len scale ''total'' f = Inr (normalize_coverage_rpm scale f)"
  by (simp add: normalize_def)

end
